theory Spec2Isabelle
  imports Complex_Main
begin

section \<open>Python values used by main.py\<close>

text \<open>
  The two exceptions the program can raise besides \<open>KeyboardInterrupt\<close>:
  \<open>IndexError\<close> (a list index out of range, \<open>random.choice\<close> of an empty list)
  and \<open>ValueError\<close> (\<open>time.sleep\<close> of a negative number of seconds).
\<close>

datatype py_error = IndexError | ValueError

text \<open>
  Python list indexing \<open>xs[i]\<close>: an index from \<open>-len(xs)\<close> up to \<open>len(xs) - 1\<close>
  is served (a negative one counts from the end), any other raises \<open>IndexError\<close>.
\<close>

definition getitem :: "'a list \<Rightarrow> int \<Rightarrow> py_error + 'a" where
  "getitem xs i =
     (if 0 \<le> i \<and> i < int (length xs) then Inr (xs ! nat i)
      else if i < 0 \<and> - int (length xs) \<le> i then Inr (xs ! nat (int (length xs) + i))
      else Inl IndexError)"

text \<open>Sequencing of two steps, the second skipped when the first raised.\<close>

definition and_then :: "py_error + 'a \<Rightarrow> ('a \<Rightarrow> py_error + 'b) \<Rightarrow> py_error + 'b" where
  "and_then m f = (case m of Inl e \<Rightarrow> Inl e | Inr x \<Rightarrow> f x)"

subsection \<open>Python floats: IEEE 754 binary64, round to nearest, ties to even\<close>

text \<open>
  A finite float is the real number it denotes. \<open>ilog2 x\<close> is the binary exponent
  \<open>\<lfloor>log\<^sub>2 x\<rfloor>\<close> of a positive \<open>x\<close>, found by halving or doubling; \<open>round64\<close> rounds a real
  to the nearest number with a 53 bit significand (exponent at least \<open>-1022\<close>, so that
  subnormal numbers are multiples of \<open>2\<^sup>-\<^sup>1\<^sup>0\<^sup>7\<^sup>4\<close>), a tie going to the even significand.
  Overflow to infinity is left out: the program only subtracts clock readings and
  subtracts \<open>0.1\<close> from its speed, far below \<open>2\<^sup>1\<^sup>0\<^sup>2\<^sup>4\<close>.
\<close>

definition pow2 :: "int \<Rightarrow> real" where
  "pow2 k = (if 0 \<le> k then 2 ^ nat k else 1 / 2 ^ nat (- k))"

lemma floor_half_less:
  fixes y :: real
  assumes "1 < y"
  shows "\<lfloor>y / 2\<rfloor> < \<lfloor>y\<rfloor>"
proof (cases "2 \<le> y")
  case True
  then have "y / 2 \<le> y - 1" by simp
  then have "\<lfloor>y / 2\<rfloor> \<le> \<lfloor>y - 1\<rfloor>" by (rule floor_mono)
  then show ?thesis by simp
next
  case False
  then have "\<lfloor>y / 2\<rfloor> = 0" using assms by (simp add: floor_eq_iff)
  moreover have "1 \<le> \<lfloor>y\<rfloor>" using assms by (simp add: le_floor_iff)
  ultimately show ?thesis by simp
qed

function halvings :: "real \<Rightarrow> int" where
  "halvings x = (if 2 \<le> x then halvings (x / 2) + 1 else 0)"
  by pat_completeness auto
termination
  by (relation "measure (\<lambda>x. nat \<lfloor>x\<rfloor>)") (use floor_half_less in \<open>auto simp: nat_less_iff\<close>)

function doublings :: "real \<Rightarrow> int" where
  "doublings x = (if 0 < x \<and> x < 1 then doublings (2 * x) + 1 else 0)"
  by pat_completeness auto
termination
proof (relation "measure (\<lambda>x. nat \<lfloor>1 / x\<rfloor>)")
  show "wf (measure (\<lambda>x::real. nat \<lfloor>1 / x\<rfloor>))" by simp
next
  fix x :: real
  assume "0 < x \<and> x < 1"
  then have one: "1 < 1 / x" by simp
  have eq: "1 / (2 * x) = (1 / x) / 2" by simp
  have "\<lfloor>(1 / x) / 2\<rfloor> < \<lfloor>1 / x\<rfloor>" using one by (rule floor_half_less)
  moreover have "0 < \<lfloor>1 / x\<rfloor>" using one by (simp add: less_floor_iff)
  ultimately have "nat \<lfloor>1 / (2 * x)\<rfloor> < nat \<lfloor>1 / x\<rfloor>"
    unfolding eq by (simp add: nat_less_iff)
  then show "(2 * x, x) \<in> measure (\<lambda>x. nat \<lfloor>1 / x\<rfloor>)" by simp
qed

declare halvings.simps [simp del] doublings.simps [simp del]

definition ilog2 :: "real \<Rightarrow> int" where
  "ilog2 x = (if 1 \<le> x then halvings x else - doublings x)"

definition rne :: "real \<Rightarrow> int" where
  "rne x = (let f = \<lfloor>x\<rfloor>; r = x - of_int f in
     if r < 1 / 2 then f else if 1 / 2 < r then f + 1 else if even f then f else f + 1)"

definition round64 :: "real \<Rightarrow> real" where
  "round64 x = (if x = 0 then 0 else
     (let e = max (ilog2 \<bar>x\<bar>) (- 1022); ulp = pow2 (e - 52)
      in of_int (rne (x / ulp)) * ulp))"

text \<open>Float subtraction \<open>a - b\<close>: the exact difference, rounded.\<close>

definition fsub :: "real \<Rightarrow> real \<Rightarrow> real" where
  "fsub a b = round64 (a - b)"

text \<open>The float literals of the source: each denotes the float nearest to its decimal.\<close>

definition lit_0_1 :: real where "lit_0_1 = round64 (1 / 10)"
definition lit_0_05 :: real where "lit_0_05 = round64 (5 / 100)"
definition lit_0_06 :: real where "lit_0_06 = round64 (6 / 100)"
definition lit_0_2 :: real where "lit_0_2 = round64 (2 / 10)"

lemmas float_eval =
  fsub_def round64_def ilog2_def rne_def pow2_def Let_def halvings.simps doublings.simps

lemma lit_0_1_value: "lit_0_1 = 3602879701896397 / 36028797018963968"
  by (simp add: lit_0_1_def float_eval)

lemma lit_0_05_value: "lit_0_05 = 3602879701896397 / 72057594037927936"
  by (simp add: lit_0_05_def float_eval)

lemma lit_0_06_value: "lit_0_06 = 1080863910568919 / 18014398509481984"
  by (simp add: lit_0_06_def float_eval)

lemma lit_0_2_value: "lit_0_2 = 3602879701896397 / 18014398509481984"
  by (simp add: lit_0_2_def float_eval)

section \<open>Objects, hardware and environment\<close>

text \<open>
  Objects live in a store and are named by references, because the program compares
  objects by identity (\<open>is\<close>) and several lists share the same \<open>Pair\<close> objects.
  The fields are those the constructors of main.py assign; \<open>LED.type\<close> is \<open>led_type\<close>
  here, and the fields \<open>pairs\<close> and \<open>pattern\<close> of a \<open>Pattern\<close> are \<open>p_pairs\<close> and
  \<open>p_pattern\<close>, since a \<open>Game\<close> has fields of the same names. A \<open>Game\<close> and its
  \<open>Pattern\<close> hold the same list of pairs, which nothing ever changes.
\<close>

type_synonym ref = nat

record LED =
  gpio_port :: nat
  led_type :: string
  color :: string

record Button =
  button_port :: nat
  last_time :: "real option"

record Pair =
  button :: ref
  led :: ref

record Pattern =
  p_pairs :: "ref list"
  new :: bool
  cycle :: real
  p_pattern :: "ref list"

record Game =
  pairs :: "ref list"
  speed :: real
  pattern :: Pattern
  index :: int

text \<open>
  The world: the game object, the store of \<open>LED\<close>, \<open>Button\<close> and \<open>Pair\<close> objects, the
  GPIO lines, and the environment. \<open>gpio_out\<close> is the level of each output line and
  \<open>gpio_log\<close> the sequence of writes to output lines, oldest first. The environment is
  read through three oracles, each with a counter of the reads made so far:
  \<open>gpio_in k port\<close> is the level the \<open>k\<close>-th read of an input line finds on \<open>port\<close>,
  \<open>clock k\<close> is what the \<open>k\<close>-th call of \<open>time.time()\<close> returns, and \<open>rand k\<close> decides
  the \<open>k\<close>-th call of \<open>random.choice\<close>.
\<close>

record world =
  game :: Game
  led_obj :: "ref \<Rightarrow> LED"
  button_obj :: "ref \<Rightarrow> Button"
  pair_obj :: "ref \<Rightarrow> Pair"
  gpio_out :: "nat \<Rightarrow> bool"
  gpio_log :: "(nat \<times> bool) list"
  gpio_in :: "nat \<Rightarrow> nat \<Rightarrow> bool"
  n_in :: nat
  clock :: "nat \<Rightarrow> real"
  n_clock :: nat
  rand :: "nat \<Rightarrow> nat"
  n_rand :: nat

subsection \<open>Library calls\<close>

text \<open>
  \<open>RPi.GPIO\<close>, \<open>time\<close> and \<open>random\<close> are libraries, not part of main.py. Of
  \<open>RPi.GPIO\<close> the model keeps what the program observes: \<open>GPIO.output\<close> sets the level
  of a line, \<open>GPIO.input\<close> of an LED's line returns the level last written to it, and
  \<open>GPIO.input\<close> of a button's line returns what the environment puts on it. An LED's
  line is an output and a button's line an input, as the constructors set them up.
  \<open>time.sleep\<close> raises \<open>ValueError\<close> for a negative argument and otherwise only lets
  time pass; \<open>random.choice\<close> raises \<open>IndexError\<close> for an empty list and otherwise
  returns one of its elements.
\<close>

definition GPIO_output :: "nat \<Rightarrow> bool \<Rightarrow> world \<Rightarrow> world" where
  "GPIO_output port level w =
     w\<lparr>gpio_out := (gpio_out w)(port := level), gpio_log := gpio_log w @ [(port, level)]\<rparr>"

definition GPIO_input_button :: "nat \<Rightarrow> world \<Rightarrow> bool \<times> world" where
  "GPIO_input_button port w = (gpio_in w (n_in w) port, w\<lparr>n_in := Suc (n_in w)\<rparr>)"

definition time_time :: "world \<Rightarrow> real \<times> world" where
  "time_time w = (clock w (n_clock w), w\<lparr>n_clock := Suc (n_clock w)\<rparr>)"

definition time_sleep :: "real \<Rightarrow> world \<Rightarrow> py_error + world" where
  "time_sleep secs w = (if secs < 0 then Inl ValueError else Inr w)"

definition random_choice :: "'a list \<Rightarrow> world \<Rightarrow> py_error + ('a \<times> world)" where
  "random_choice xs w =
     (if xs = [] then Inl IndexError
      else Inr (xs ! (rand w (n_rand w) mod length xs), w\<lparr>n_rand := Suc (n_rand w)\<rparr>))"

text \<open>A \<open>for\<close> loop over a list, left as soon as the body raises.\<close>

fun for_each :: "'a list \<Rightarrow> ('a \<Rightarrow> world \<Rightarrow> py_error + world) \<Rightarrow> world \<Rightarrow> py_error + world" where
  "for_each [] body w = Inr w"
| "for_each (x # xs) body w =
     (case body x w of Inl e \<Rightarrow> Inl e | Inr w' \<Rightarrow> for_each xs body w')"

section \<open>The classes of main.py\<close>

subsection \<open>LED\<close>

definition toggle :: "ref \<Rightarrow> string \<Rightarrow> world \<Rightarrow> world" where
  "toggle l directive w =
     (if directive = ''On'' then GPIO_output (gpio_port (led_obj w l)) True w
      else GPIO_output (gpio_port (led_obj w l)) False w)"

definition status :: "ref \<Rightarrow> world \<Rightarrow> string" where
  "status l w = (if gpio_out w (gpio_port (led_obj w l)) then ''On'' else ''Off'')"

subsection \<open>Button\<close>

definition released :: "ref \<Rightarrow> world \<Rightarrow> bool \<times> world" where
  "released b w = GPIO_input_button (button_port (button_obj w b)) w"

text \<open>
  \<open>cooling\<close>: \<open>if self.last_time\<close> is false for \<open>None\<close> and for \<open>0.0\<close>, and
  \<open>if not seconds\<close> is true for \<open>None\<close> and for \<open>0.0\<close>. The clock is read once for
  the difference (when there is a stamp) and once more for the new stamp.
\<close>

definition cooling :: "ref \<Rightarrow> world \<Rightarrow> real \<times> world" where
  "cooling b w =
     (case (case last_time (button_obj w b) of
              None \<Rightarrow> (None, w)
            | Some t0 \<Rightarrow>
                if t0 \<noteq> 0 then (case time_time w of (t, w1) \<Rightarrow> (Some (fsub t t0), w1))
                else (None, w)) of
        (seconds, w1) \<Rightarrow>
          (case time_time w1 of
             (t', w2) \<Rightarrow>
               (let w3 = w2\<lparr>button_obj := (button_obj w2)(b := (button_obj w2 b)\<lparr>last_time := Some t'\<rparr>)\<rparr>
                in case seconds of
                     None \<Rightarrow> (10, w3)
                   | Some s \<Rightarrow> if s = 0 then (10, w3) else (s, w3))))"

subsection \<open>Pattern\<close>

text \<open>\<open>self.pattern.append(random.choice(self.pairs))\<close>, the statement \<open>add\<close> and \<open>generate\<close> share.\<close>

definition append_choice :: "world \<Rightarrow> py_error + world" where
  "append_choice w =
     and_then (random_choice (p_pairs (pattern (game w))) w)
       (\<lambda>(x, w1). Inr (w1\<lparr>game := (game w1)\<lparr>pattern :=
           (pattern (game w1))\<lparr>p_pattern := p_pattern (pattern (game w1)) @ [x]\<rparr>\<rparr>\<rparr>))"

definition set_new :: "bool \<Rightarrow> world \<Rightarrow> world" where
  "set_new v w = w\<lparr>game := (game w)\<lparr>pattern := (pattern (game w))\<lparr>new := v\<rparr>\<rparr>\<rparr>"

definition add :: "world \<Rightarrow> py_error + world" where
  "add w = and_then (append_choice w) (\<lambda>w1. Inr (set_new True w1))"

definition generate :: "world \<Rightarrow> py_error + world" where
  "generate w =
     and_then
       (for_each [0 ..< 3] (\<lambda>item. append_choice)
          (w\<lparr>game := (game w)\<lparr>pattern := (pattern (game w))\<lparr>p_pattern := []\<rparr>\<rparr>\<rparr>))
       (\<lambda>w1. Inr (set_new True w1))"

text \<open>The body of the two sweeps: \<open>self.pairs[i]\<close> flashed for \<open>self.cycle\<close> seconds.\<close>

definition flash :: "int \<Rightarrow> world \<Rightarrow> py_error + world" where
  "flash i w =
     and_then (getitem (p_pairs (pattern (game w))) i) (\<lambda>p.
     and_then (time_sleep (cycle (pattern (game w))) (toggle (led (pair_obj w p)) ''On'' w)) (\<lambda>w1.
     and_then (getitem (p_pairs (pattern (game w1))) i) (\<lambda>p'.
       Inr (toggle (led (pair_obj w1 p')) ''Off'' w1))))"

text \<open>\<open>range(1, len(self.pairs))\<close> and \<open>range(len(self.pairs) - 2, -1, -1)\<close>.\<close>

definition cycle_forward :: "world \<Rightarrow> py_error + world" where
  "cycle_forward w = for_each [1 .. int (length (p_pairs (pattern (game w)))) - 1] flash w"

definition cycle_backward :: "world \<Rightarrow> py_error + world" where
  "cycle_backward w = for_each (rev [0 .. int (length (p_pairs (pattern (game w)))) - 2]) flash w"

function cycle_loop :: "nat \<Rightarrow> world \<Rightarrow> py_error + world" where
  "cycle_loop iterations w =
     (if iterations < 10 then
        (case cycle_forward w of
           Inl e \<Rightarrow> Inl e
         | Inr w1 \<Rightarrow>
             (case cycle_backward w1 of
                Inl e \<Rightarrow> Inl e
              | Inr w2 \<Rightarrow> cycle_loop (iterations + 1) w2))
      else Inr w)"
  by pat_completeness auto
termination
  by (relation "measure (\<lambda>(iterations, w). 10 - iterations)") auto

declare cycle_loop.simps [simp del]

definition cycle_lights :: "world \<Rightarrow> py_error + world" where
  "cycle_lights w = cycle_loop 0 w"

definition Pattern_init :: "ref list \<Rightarrow> world \<Rightarrow> py_error + world" where
  "Pattern_init prs w =
     generate (w\<lparr>game := (game w)\<lparr>pattern :=
        \<lparr>p_pairs = prs, new = False, cycle = lit_0_06, p_pattern = []\<rparr>\<rparr>\<rparr>)"

subsection \<open>Game\<close>

definition Game_init :: "ref list \<Rightarrow> world \<Rightarrow> py_error + world" where
  "Game_init prs w =
     and_then (Pattern_init prs (w\<lparr>game := (game w)\<lparr>pairs := prs, speed := 1\<rparr>\<rparr>))
       (\<lambda>w1. Inr (w1\<lparr>game := (game w1)\<lparr>index := 0\<rparr>\<rparr>))"

definition show_step :: "ref \<Rightarrow> world \<Rightarrow> py_error + world" where
  "show_step pair w =
     and_then (time_sleep (speed (game w)) (toggle (led (pair_obj w pair)) ''On'' w)) (\<lambda>w1.
       time_sleep lit_0_2 (toggle (led (pair_obj w1 pair)) ''Off'' w1))"

definition show_pattern :: "world \<Rightarrow> py_error + world" where
  "show_pattern w = for_each (p_pattern (pattern (game w))) show_step w"

definition start :: "world \<Rightarrow> py_error + world" where
  "start w = and_then (cycle_lights w) (\<lambda>w1. and_then (generate w1) show_pattern)"

definition reset :: "world \<Rightarrow> py_error + world" where
  "reset w =
     and_then (generate (w\<lparr>game := (game w)\<lparr>index := 0, speed := 1\<rparr>\<rparr>)) (\<lambda>w1.
     and_then (cycle_lights w1) show_pattern)"

definition watch_pair :: "ref \<Rightarrow> world \<Rightarrow> py_error + world" where
  "watch_pair pair w =
     (case released (button (pair_obj w pair)) w of
        (rel, w1) \<Rightarrow>
          if \<not> rel then
            (case cooling (button (pair_obj w1 pair)) w1 of
               (cooling_v, w2) \<Rightarrow>
                 if status (led (pair_obj w2 pair)) w2 = ''Off'' then
                   and_then
                     (if lit_0_05 < cooling_v then
                        and_then (getitem (p_pattern (pattern (game w2))) (index (game w2)))
                          (\<lambda>expected.
                             if button (pair_obj w2 pair) = button (pair_obj w2 expected)
                             then Inr (w2\<lparr>game := (game w2)\<lparr>index := index (game w2) + 1\<rparr>\<rparr>)
                             else reset w2)
                      else Inr w2)
                     (\<lambda>w3. Inr (toggle (led (pair_obj w3 pair)) ''On'' w3))
                 else Inr w2)
          else Inr (toggle (led (pair_obj w1 pair)) ''Off'' w1))"

definition watch_nth :: "int \<Rightarrow> world \<Rightarrow> py_error + world" where
  "watch_nth k w = and_then (getitem (pairs (game w)) k) (\<lambda>pair. watch_pair pair w)"

definition run :: "world \<Rightarrow> py_error + world" where
  "run w =
     and_then
       (if int (length (p_pattern (pattern (game w)))) \<le> index (game w) then
          and_then
            (for_each (pairs (game w)) (\<lambda>pair w'. Inr (toggle (led (pair_obj w' pair)) ''Off'' w')) w)
            (\<lambda>w1.
               and_then (add (w1\<lparr>game := (game w1)\<lparr>speed := fsub (speed (game w1)) lit_0_1\<rparr>\<rparr>))
                 (\<lambda>w2. and_then (show_pattern w2)
                    (\<lambda>w3. Inr (w3\<lparr>game := (game w3)\<lparr>index := 0\<rparr>\<rparr>))))
        else Inr w)
       (\<lambda>w4. and_then (watch_nth 0 w4) (\<lambda>w5. and_then (watch_nth 1 w5)
          (\<lambda>w6. and_then (watch_nth 2 w6) (watch_nth 3))))"

subsection \<open>The main program\<close>

text \<open>
  The objects the main program builds before \<open>Game(pairs)\<close>: four LEDs (ports 18, 23,
  19, 20), four buttons (ports 17, 16, 13, 12) and the pairs yellow, blue, green, red,
  numbered 0 to 3, each holding the button and the LED of its number. The three
  oracles are parameters.
\<close>

definition main_store :: "(nat \<Rightarrow> nat \<Rightarrow> bool) \<Rightarrow> (nat \<Rightarrow> real) \<Rightarrow> (nat \<Rightarrow> nat) \<Rightarrow> world" where
  "main_store inp clk rnd =
     \<lparr>game = \<lparr>pairs = [], speed = 0,
              pattern = \<lparr>p_pairs = [], new = False, cycle = 0, p_pattern = []\<rparr>, index = 0\<rparr>,
      led_obj = (\<lambda>r.
        if r = 0 then \<lparr>gpio_port = 18, led_type = ''DIGITAL'', color = ''yellow''\<rparr>
        else if r = 1 then \<lparr>gpio_port = 23, led_type = ''DIGITAL'', color = ''blue''\<rparr>
        else if r = 2 then \<lparr>gpio_port = 19, led_type = ''DIGITAL'', color = ''green''\<rparr>
        else \<lparr>gpio_port = 20, led_type = ''DIGITAL'', color = ''red''\<rparr>),
      button_obj = (\<lambda>r.
        if r = 0 then \<lparr>button_port = 17, last_time = None\<rparr>
        else if r = 1 then \<lparr>button_port = 16, last_time = None\<rparr>
        else if r = 2 then \<lparr>button_port = 13, last_time = None\<rparr>
        else \<lparr>button_port = 12, last_time = None\<rparr>),
      pair_obj = (\<lambda>r. \<lparr>button = r, led = r\<rparr>),
      gpio_out = (\<lambda>port. False), gpio_log = [],
      gpio_in = inp, n_in = 0, clock = clk, n_clock = 0, rand = rnd, n_rand = 0\<rparr>"

definition main_game :: "(nat \<Rightarrow> nat \<Rightarrow> bool) \<Rightarrow> (nat \<Rightarrow> real) \<Rightarrow> (nat \<Rightarrow> nat) \<Rightarrow> py_error + world" where
  "main_game inp clk rnd = and_then (Game_init [0, 1, 2, 3] (main_store inp clk rnd)) start"

text \<open>\<open>ticks n\<close>: the first \<open>n\<close> passes of the loop \<open>while 1: game.run()\<close>.\<close>

fun ticks :: "nat \<Rightarrow> world \<Rightarrow> py_error + world" where
  "ticks 0 w = Inr w"
| "ticks (Suc n) w = (case run w of Inl e \<Rightarrow> Inl e | Inr w' \<Rightarrow> ticks n w')"

section \<open>What each operation does to the world\<close>

text \<open>
  The lemmas of this section give every loop and method a closed form. \<open>led_port w pair\<close>
  is \<open>pair.led.gpio_port\<close>; \<open>blink w pair\<close> is what one flash of a pair's LED writes
  (on, then off); \<open>apply_writes ws w\<close> is the world after the GPIO writes \<open>ws\<close>;
  \<open>forward_writes\<close> and \<open>backward_writes\<close> flash the pool's indices \<open>1, \<dots>, n - 1\<close> and
  \<open>n - 2, \<dots>, 0\<close>; \<open>choice_at w k\<close> is the pair the \<open>k\<close>-th coming call of
  \<open>random.choice(self.pairs)\<close> returns.
\<close>

definition led_port :: "world \<Rightarrow> ref \<Rightarrow> nat" where
  "led_port w pair = gpio_port (led_obj w (led (pair_obj w pair)))"

definition blink :: "world \<Rightarrow> ref \<Rightarrow> (nat \<times> bool) list" where
  "blink w pair = [(led_port w pair, True), (led_port w pair, False)]"

definition apply_writes :: "(nat \<times> bool) list \<Rightarrow> world \<Rightarrow> world" where
  "apply_writes ws w =
     w\<lparr>gpio_out := foldl (\<lambda>g (port, level). g(port := level)) (gpio_out w) ws,
       gpio_log := gpio_log w @ ws\<rparr>"

lemma apply_writes_sel [simp]:
  "game (apply_writes ws w) = game w"
  "led_obj (apply_writes ws w) = led_obj w"
  "button_obj (apply_writes ws w) = button_obj w"
  "pair_obj (apply_writes ws w) = pair_obj w"
  "gpio_in (apply_writes ws w) = gpio_in w"
  "n_in (apply_writes ws w) = n_in w"
  "clock (apply_writes ws w) = clock w"
  "n_clock (apply_writes ws w) = n_clock w"
  "rand (apply_writes ws w) = rand w"
  "n_rand (apply_writes ws w) = n_rand w"
  "gpio_log (apply_writes ws w) = gpio_log w @ ws"
  by (simp_all add: apply_writes_def)

lemma apply_writes_Nil [simp]: "apply_writes [] w = w"
  by (simp add: apply_writes_def)

lemma apply_writes_twice [simp]:
  "apply_writes vs (apply_writes ws w) = apply_writes (ws @ vs) w"
  by (simp add: apply_writes_def)

lemma led_port_apply_writes [simp]: "led_port (apply_writes ws w) = led_port w"
  by (rule ext) (simp add: led_port_def)

lemma blink_apply_writes [simp]: "blink (apply_writes ws w) = blink w"
  by (rule ext) (simp add: blink_def)

lemma toggle_writes: "toggle l d w = apply_writes [(gpio_port (led_obj w l), d = ''On'')] w"
  by (simp add: toggle_def GPIO_output_def apply_writes_def)

lemma and_then_simps [simp]:
  "and_then (Inl e) f = Inl e"
  "and_then (Inr x) f = f x"
  by (simp_all add: and_then_def)

lemma lit_nonneg [simp]: "0 \<le> lit_0_2" "0 \<le> lit_0_06" "0 \<le> lit_0_1" "0 \<le> lit_0_05"
  by (simp_all add: lit_0_2_value lit_0_06_value lit_0_1_value lit_0_05_value)

lemma lit_not_neg [simp]: "\<not> lit_0_2 < 0" "\<not> lit_0_06 < 0"
  by (simp_all add: not_less)

lemma for_each_toggle_off:
  "for_each xs (\<lambda>pair w'. Inr (toggle (led (pair_obj w' pair)) ''Off'' w')) w =
     Inr (apply_writes (map (\<lambda>pair. (led_port w pair, False)) xs) w)"
  by (induction xs arbitrary: w) (simp_all add: toggle_writes led_port_def)

lemma show_step_ok:
  "0 \<le> speed (game w) \<Longrightarrow> show_step pair w = Inr (apply_writes (blink w pair) w)"
  by (simp add: show_step_def time_sleep_def toggle_writes blink_def led_port_def)

lemma show_step_neg:
  "speed (game w) < 0 \<Longrightarrow> show_step pair w = Inl ValueError"
  by (simp add: show_step_def time_sleep_def toggle_writes)

lemma for_each_show_ok:
  "0 \<le> speed (game w) \<Longrightarrow>
     for_each xs show_step w = Inr (apply_writes (concat (map (blink w) xs)) w)"
  by (induction xs arbitrary: w) (simp_all add: show_step_ok)

lemma show_pattern_ok:
  "0 \<le> speed (game w) \<Longrightarrow>
     show_pattern w = Inr (apply_writes (concat (map (blink w) (p_pattern (pattern (game w))))) w)"
  by (simp add: show_pattern_def for_each_show_ok)

lemma show_pattern_neg:
  "speed (game w) < 0 \<Longrightarrow> p_pattern (pattern (game w)) \<noteq> [] \<Longrightarrow> show_pattern w = Inl ValueError"
  by (cases "p_pattern (pattern (game w))") (simp_all add: show_pattern_def show_step_neg)


definition forward_writes :: "world \<Rightarrow> (nat \<times> bool) list" where
  "forward_writes w =
     concat (map (\<lambda>i. blink w (p_pairs (pattern (game w)) ! i))
       [1 ..< length (p_pairs (pattern (game w)))])"

definition backward_writes :: "world \<Rightarrow> (nat \<times> bool) list" where
  "backward_writes w =
     concat (map (\<lambda>i. blink w (p_pairs (pattern (game w)) ! i))
       (rev [0 ..< length (p_pairs (pattern (game w))) - 1]))"

lemma forward_writes_apply [simp]: "forward_writes (apply_writes ws w) = forward_writes w"
  by (simp add: forward_writes_def)

lemma backward_writes_apply [simp]: "backward_writes (apply_writes ws w) = backward_writes w"
  by (simp add: backward_writes_def)

lemma getitem_nat: "i < length xs \<Longrightarrow> getitem xs (int i) = Inr (xs ! i)"
  by (simp add: getitem_def)

lemma flash_ok:
  "0 \<le> cycle (pattern (game w)) \<Longrightarrow> i < length (p_pairs (pattern (game w))) \<Longrightarrow>
     flash (int i) w = Inr (apply_writes (blink w (p_pairs (pattern (game w)) ! i)) w)"
  by (simp add: flash_def getitem_nat time_sleep_def toggle_writes blink_def led_port_def)

lemma for_each_flash:
  "0 \<le> cycle (pattern (game w)) \<Longrightarrow> \<forall>i \<in> set js. i < length (p_pairs (pattern (game w))) \<Longrightarrow>
     for_each (map int js) flash w =
       Inr (apply_writes (concat (map (\<lambda>i. blink w (p_pairs (pattern (game w)) ! i)) js)) w)"
  by (induction js arbitrary: w) (simp_all add: flash_ok)

lemma upto_map_int: "[int a .. int b - 1] = map int [a ..< b]"
proof (induction b)
  case 0
  then show ?case by simp
next
  case (Suc b)
  show ?case
  proof (cases "a \<le> b")
    case True
    then have "[int a .. int (Suc b) - 1] = [int a .. int b - 1] @ [int b]"
      using upto_rec2 [of "int a" "int b"] by simp
    with Suc True show ?thesis by simp
  next
    case False
    then show ?thesis by simp
  qed
qed

lemma cycle_forward_ok:
  assumes "0 \<le> cycle (pattern (game w))"
  shows "cycle_forward w = Inr (apply_writes (forward_writes w) w)"
proof -
  have "[1 .. int (length (p_pairs (pattern (game w)))) - 1] =
          map int [1 ..< length (p_pairs (pattern (game w)))]"
    using upto_map_int [of 1] by simp
  then show ?thesis
    using assms by (simp add: cycle_forward_def forward_writes_def for_each_flash)
qed

lemma upto_backward: "[0 .. int n - 1] = map int [0 ..< n]"
  using upto_map_int [of 0 n] by (simp only: of_nat_0)

lemma cycle_backward_ok:
  assumes "0 \<le> cycle (pattern (game w))"
  shows "cycle_backward w = Inr (apply_writes (backward_writes w) w)"
proof (cases "p_pairs (pattern (game w))")
  case Nil
  then show ?thesis by (simp add: cycle_backward_def backward_writes_def)
next
  case (Cons x xs)
  have "for_each (map int (rev [0 ..< length xs])) flash w =
          Inr (apply_writes (concat (map (\<lambda>i. blink w (p_pairs (pattern (game w)) ! i))
            (rev [0 ..< length xs]))) w)"
    using assms Cons by (intro for_each_flash) simp_all
  then show ?thesis
    using Cons by (simp add: cycle_backward_def backward_writes_def upto_backward rev_map del: upt_Suc)
qed

lemma cycle_loop_ok:
  "0 \<le> cycle (pattern (game w)) \<Longrightarrow>
     cycle_loop k w =
       Inr (apply_writes (concat (replicate (10 - k) (forward_writes w @ backward_writes w))) w)"
proof (induction k w rule: cycle_loop.induct)
  case (1 iterations w)
  show ?case
  proof (cases "iterations < 10")
    case True
    then have "10 - iterations = Suc (10 - (iterations + 1))" by simp
    then show ?thesis
      using True 1 by (simp add: cycle_loop.simps [of iterations] cycle_forward_ok cycle_backward_ok)
  next
    case False
    then show ?thesis by (simp add: cycle_loop.simps [of iterations])
  qed
qed

lemma cycle_lights_ok:
  "0 \<le> cycle (pattern (game w)) \<Longrightarrow>
     cycle_lights w =
       Inr (apply_writes (concat (replicate 10 (forward_writes w @ backward_writes w))) w)"
  by (simp add: cycle_lights_def cycle_loop_ok)


definition choice_at :: "world \<Rightarrow> nat \<Rightarrow> ref" where
  "choice_at w k =
     p_pairs (pattern (game w)) ! (rand w (n_rand w + k) mod length (p_pairs (pattern (game w))))"

lemma choice_at_in_pool:
  "p_pairs (pattern (game w)) \<noteq> [] \<Longrightarrow> choice_at w k \<in> set (p_pairs (pattern (game w)))"
  by (simp add: choice_at_def)

lemma append_choice_ok:
  "p_pairs (pattern (game w)) \<noteq> [] \<Longrightarrow>
     append_choice w =
       Inr (w\<lparr>game := (game w)\<lparr>pattern :=
              (pattern (game w))\<lparr>p_pattern := p_pattern (pattern (game w)) @ [choice_at w 0]\<rparr>\<rparr>,
            n_rand := Suc (n_rand w)\<rparr>)"
  by (simp add: append_choice_def random_choice_def choice_at_def)

lemma append_choice_empty:
  "p_pairs (pattern (game w)) = [] \<Longrightarrow> append_choice w = Inl IndexError"
  by (simp add: append_choice_def random_choice_def)

lemma add_ok:
  "p_pairs (pattern (game w)) \<noteq> [] \<Longrightarrow>
     add w =
       Inr (w\<lparr>game := (game w)\<lparr>pattern :=
              (pattern (game w))\<lparr>p_pattern := p_pattern (pattern (game w)) @ [choice_at w 0],
                                 new := True\<rparr>\<rparr>,
            n_rand := Suc (n_rand w)\<rparr>)"
  by (simp add: add_def append_choice_ok set_new_def)

lemma generate_ok:
  "p_pairs (pattern (game w)) \<noteq> [] \<Longrightarrow>
     generate w =
       Inr (w\<lparr>game := (game w)\<lparr>pattern :=
              (pattern (game w))\<lparr>p_pattern := [choice_at w 0, choice_at w 1, choice_at w 2],
                                 new := True\<rparr>\<rparr>,
            n_rand := n_rand w + 3\<rparr>)"
  by (simp add: generate_def append_choice_ok set_new_def choice_at_def upt_rec numeral_3_eq_3)

lemma generate_empty:
  "p_pairs (pattern (game w)) = [] \<Longrightarrow> generate w = Inl IndexError"
  by (simp add: generate_def append_choice_empty upt_rec)


lemma cooling_frame [simp]:
  "game (snd (cooling b w)) = game w"
  "led_obj (snd (cooling b w)) = led_obj w"
  "pair_obj (snd (cooling b w)) = pair_obj w"
  "gpio_out (snd (cooling b w)) = gpio_out w"
  "gpio_log (snd (cooling b w)) = gpio_log w"
  "gpio_in (snd (cooling b w)) = gpio_in w"
  "n_in (snd (cooling b w)) = n_in w"
  "clock (snd (cooling b w)) = clock w"
  "rand (snd (cooling b w)) = rand w"
  "n_rand (snd (cooling b w)) = n_rand w"
  by (simp_all add: cooling_def time_time_def Let_def split: option.splits)

lemma cooling_button_port [simp]:
  "button_port (button_obj (snd (cooling b w)) b') = button_port (button_obj w b')"
  by (simp add: cooling_def time_time_def Let_def split: option.splits)

lemma cooling_n_in [simp]: "fst (cooling b (w\<lparr>n_in := k\<rparr>)) = fst (cooling b w)"
  by (simp add: cooling_def time_time_def Let_def split: option.splits)

lemma cooling_fresh:
  "last_time (button_obj w b) = None \<Longrightarrow>
     cooling b w =
       (10, w\<lparr>button_obj := (button_obj w)(b := (button_obj w b)\<lparr>last_time := Some (clock w (n_clock w))\<rparr>),
              n_clock := Suc (n_clock w)\<rparr>)"
  by (simp add: cooling_def time_time_def)

lemma cooling_stamped:
  "last_time (button_obj w b) = Some t0 \<Longrightarrow> t0 \<noteq> 0 \<Longrightarrow>
     cooling b w =
       (if fsub (clock w (n_clock w)) t0 = 0 then 10 else fsub (clock w (n_clock w)) t0,
        w\<lparr>button_obj := (button_obj w)(b := (button_obj w b)\<lparr>last_time := Some (clock w (Suc (n_clock w)))\<rparr>),
          n_clock := Suc (Suc (n_clock w))\<rparr>)"
  by (simp add: cooling_def time_time_def)

lemma led_port_cooling [simp]: "led_port (snd (cooling b w)) = led_port w"
  by (rule ext) (simp add: led_port_def)

lemma led_port_n_in [simp]: "led_port (w\<lparr>n_in := k\<rparr>) = led_port w"
  by (rule ext) (simp add: led_port_def)

lemma watch_pair_released:
  "gpio_in w (n_in w) (button_port (button_obj w (button (pair_obj w pair)))) \<Longrightarrow>
     watch_pair pair w = Inr (apply_writes [(led_port w pair, False)] (w\<lparr>n_in := Suc (n_in w)\<rparr>))"
  by (simp add: watch_pair_def released_def GPIO_input_button_def toggle_writes led_port_def)

text \<open>The world in which a pressed button's press is judged: after the two reads.\<close>

definition after_reads :: "ref \<Rightarrow> world \<Rightarrow> world" where
  "after_reads pair w = snd (cooling (button (pair_obj w pair)) (w\<lparr>n_in := Suc (n_in w)\<rparr>))"

lemma after_reads_frame [simp]:
  "game (after_reads pair w) = game w"
  "led_obj (after_reads pair w) = led_obj w"
  "pair_obj (after_reads pair w) = pair_obj w"
  "gpio_out (after_reads pair w) = gpio_out w"
  "gpio_log (after_reads pair w) = gpio_log w"
  "gpio_in (after_reads pair w) = gpio_in w"
  "n_in (after_reads pair w) = Suc (n_in w)"
  "clock (after_reads pair w) = clock w"
  "rand (after_reads pair w) = rand w"
  "n_rand (after_reads pair w) = n_rand w"
  "led_port (after_reads pair w) = led_port w"
  by (simp_all add: after_reads_def)

lemma watch_pair_pressed:
  assumes "\<not> gpio_in w (n_in w) (button_port (button_obj w (button (pair_obj w pair))))"
  shows "watch_pair pair w =
     (if status (led (pair_obj w pair)) w = ''Off'' then
        and_then
          (if lit_0_05 < fst (cooling (button (pair_obj w pair)) w) then
             and_then (getitem (p_pattern (pattern (game w))) (index (game w)))
               (\<lambda>expected.
                  if button (pair_obj w pair) = button (pair_obj w expected)
                  then Inr ((after_reads pair w)\<lparr>game := (game w)\<lparr>index := index (game w) + 1\<rparr>\<rparr>)
                  else reset (after_reads pair w))
           else Inr (after_reads pair w))
          (\<lambda>w3. Inr (toggle (led (pair_obj w3 pair)) ''On'' w3))
      else Inr (after_reads pair w))"
  using assms
  by (simp add: watch_pair_def released_def GPIO_input_button_def after_reads_def status_def
      split_beta cong: if_cong)

lemma choice_at_game [simp]:
  "p_pairs (pattern g) = p_pairs (pattern (game w)) \<Longrightarrow> choice_at (w\<lparr>game := g\<rparr>) k = choice_at w k"
  by (simp add: choice_at_def)

lemma reset_ok:
  assumes "p_pairs (pattern (game w)) \<noteq> []" and "0 \<le> cycle (pattern (game w))"
  shows "\<exists>w'. reset w = Inr w'
     \<and> game w' = (game w)\<lparr>index := 0, speed := 1,
          pattern := (pattern (game w))\<lparr>p_pattern := [choice_at w 0, choice_at w 1, choice_at w 2],
                                        new := True\<rparr>\<rparr>
     \<and> led_obj w' = led_obj w \<and> pair_obj w' = pair_obj w \<and> button_obj w' = button_obj w
     \<and> gpio_in w' = gpio_in w \<and> n_in w' = n_in w \<and> clock w' = clock w \<and> n_clock w' = n_clock w
     \<and> rand w' = rand w \<and> n_rand w' = n_rand w + 3"
  using assms
  by (simp add: reset_def generate_ok cycle_lights_ok show_pattern_ok)

text \<open>
  \<open>pair_port w k\<close> is \<open>self.pairs[k].button.button_port\<close>, the line the \<open>k\<close>-th call of
  \<open>watch_pair\<close> in \<open>run()\<close> reads.
\<close>

definition pair_port :: "world \<Rightarrow> nat \<Rightarrow> nat" where
  "pair_port w k = button_port (button_obj w (button (pair_obj w (pairs (game w) ! k))))"

lemma watch_nth_released:
  assumes "k < length (pairs (game w))" and "gpio_in w (n_in w) (pair_port w k)"
  shows "watch_nth (int k) w =
     Inr (apply_writes [(led_port w (pairs (game w) ! k), False)] (w\<lparr>n_in := Suc (n_in w)\<rparr>))"
  using assms by (simp add: watch_nth_def getitem_nat watch_pair_released pair_port_def)

lemma watch_four_released:
  assumes "4 \<le> length (pairs (game w))"
    and "gpio_in w (n_in w) (pair_port w 0)"
    and "gpio_in w (Suc (n_in w)) (pair_port w 1)"
    and "gpio_in w (Suc (Suc (n_in w))) (pair_port w 2)"
    and "gpio_in w (Suc (Suc (Suc (n_in w)))) (pair_port w 3)"
  shows "and_then (watch_nth 0 w) (\<lambda>w5. and_then (watch_nth 1 w5)
           (\<lambda>w6. and_then (watch_nth 2 w6) (watch_nth 3))) =
     Inr (apply_writes (map (\<lambda>k. (led_port w (pairs (game w) ! k), False)) [0, 1, 2, 3])
            (w\<lparr>n_in := n_in w + 4\<rparr>))"
proof -
  let ?w1 = "apply_writes [(led_port w (pairs (game w) ! 0), False)] (w\<lparr>n_in := Suc (n_in w)\<rparr>)"
  let ?w2 = "apply_writes [(led_port w (pairs (game w) ! 1), False)] (?w1\<lparr>n_in := Suc (n_in ?w1)\<rparr>)"
  let ?w3 = "apply_writes [(led_port w (pairs (game w) ! 2), False)] (?w2\<lparr>n_in := Suc (n_in ?w2)\<rparr>)"
  let ?w4 = "apply_writes [(led_port w (pairs (game w) ! 3), False)] (?w3\<lparr>n_in := Suc (n_in ?w3)\<rparr>)"
  have len: "0 < length (pairs (game w))" "1 < length (pairs (game w))"
    "2 < length (pairs (game w))" "3 < length (pairs (game w))"
    using assms(1) by auto
  have s0: "watch_nth 0 w = Inr ?w1"
    using watch_nth_released [OF len(1)] assms(2) by simp
  have s1: "watch_nth 1 ?w1 = Inr ?w2"
    using watch_nth_released [of 1 ?w1] len(2) assms(3) by (simp add: pair_port_def)
  have s2: "watch_nth 2 ?w2 = Inr ?w3"
    using watch_nth_released [of 2 ?w2] len(3) assms(4) by (simp add: pair_port_def)
  have s3: "watch_nth 3 ?w3 = Inr ?w4"
    using watch_nth_released [of 3 ?w3] len(4) assms(5) by (simp add: pair_port_def)
  have "?w4 = apply_writes (map (\<lambda>k. (led_port w (pairs (game w) ! k), False)) [0, 1, 2, 3])
            (w\<lparr>n_in := n_in w + 4\<rparr>)"
    by (simp add: apply_writes_def)
  then show ?thesis using s0 s1 s2 s3 by simp
qed


lemma run_round_returns:
  assumes idx: "int (length (p_pattern (pattern (game w)))) \<le> index (game w)"
    and len4: "4 \<le> length (pairs (game w))"
    and pool: "p_pairs (pattern (game w)) \<noteq> []"
    and ok: "0 \<le> fsub (speed (game w)) lit_0_1"
    and r0: "gpio_in w (n_in w) (pair_port w 0)"
    and r1: "gpio_in w (Suc (n_in w)) (pair_port w 1)"
    and r2: "gpio_in w (Suc (Suc (n_in w))) (pair_port w 2)"
    and r3: "gpio_in w (Suc (Suc (Suc (n_in w)))) (pair_port w 3)"
  shows "\<exists>w'. run w = Inr w'
     \<and> game w' = (game w)\<lparr>speed := fsub (speed (game w)) lit_0_1,
          pattern := (pattern (game w))\<lparr>p_pattern := p_pattern (pattern (game w)) @ [choice_at w 0],
                                        new := True\<rparr>,
          index := 0\<rparr>
     \<and> led_obj w' = led_obj w \<and> pair_obj w' = pair_obj w \<and> button_obj w' = button_obj w
     \<and> gpio_in w' = gpio_in w \<and> n_in w' = n_in w + 4 \<and> clock w' = clock w \<and> n_clock w' = n_clock w
     \<and> rand w' = rand w \<and> n_rand w' = Suc (n_rand w)"
proof -
  let ?w1 = "apply_writes (map (\<lambda>pair. (led_port w pair, False)) (pairs (game w))) w"
  let ?w1' = "?w1\<lparr>game := (game ?w1)\<lparr>speed := fsub (speed (game ?w1)) lit_0_1\<rparr>\<rparr>"
  obtain w2 where a: "add ?w1' = Inr w2"
    and g2: "game w2 = (game w)\<lparr>speed := fsub (speed (game w)) lit_0_1,
          pattern := (pattern (game w))\<lparr>p_pattern := p_pattern (pattern (game w)) @ [choice_at w 0],
                                        new := True\<rparr>\<rparr>"
    and f2: "led_obj w2 = led_obj w" "pair_obj w2 = pair_obj w" "button_obj w2 = button_obj w"
      "gpio_in w2 = gpio_in w" "n_in w2 = n_in w" "clock w2 = clock w" "n_clock w2 = n_clock w"
      "rand w2 = rand w" "n_rand w2 = Suc (n_rand w)"
    using pool by (simp add: add_ok choice_at_def)
  let ?w3 = "apply_writes (concat (map (blink w2) (p_pattern (pattern (game w2))))) w2"
  have s: "show_pattern w2 = Inr ?w3"
    using ok g2 by (simp add: show_pattern_ok)
  let ?w4 = "?w3\<lparr>game := (game ?w3)\<lparr>index := 0\<rparr>\<rparr>"
  have branch: "(if int (length (p_pattern (pattern (game w)))) \<le> index (game w) then
          and_then
            (for_each (pairs (game w)) (\<lambda>pair w'. Inr (toggle (led (pair_obj w' pair)) ''Off'' w')) w)
            (\<lambda>w1.
               and_then (add (w1\<lparr>game := (game w1)\<lparr>speed := fsub (speed (game w1)) lit_0_1\<rparr>\<rparr>))
                 (\<lambda>w2. and_then (show_pattern w2)
                    (\<lambda>w3. Inr (w3\<lparr>game := (game w3)\<lparr>index := 0\<rparr>\<rparr>))))
        else Inr w) = Inr ?w4"
    using idx a s by (simp add: for_each_toggle_off)
  have four: "and_then (watch_nth 0 ?w4) (\<lambda>w5. and_then (watch_nth 1 w5)
           (\<lambda>w6. and_then (watch_nth 2 w6) (watch_nth 3))) =
     Inr (apply_writes (map (\<lambda>k. (led_port ?w4 (pairs (game ?w4) ! k), False)) [0, 1, 2, 3])
            (?w4\<lparr>n_in := n_in ?w4 + 4\<rparr>))"
    using len4 r0 r1 r2 r3 g2 f2 by (intro watch_four_released) (simp_all add: pair_port_def)
  have "run w = Inr (apply_writes (map (\<lambda>k. (led_port ?w4 (pairs (game ?w4) ! k), False)) [0, 1, 2, 3])
            (?w4\<lparr>n_in := n_in ?w4 + 4\<rparr>))"
    unfolding run_def branch using four by simp
  then show ?thesis using g2 f2 by simp
qed


lemma run_round_raises:
  assumes idx: "int (length (p_pattern (pattern (game w)))) \<le> index (game w)"
    and pool: "p_pairs (pattern (game w)) \<noteq> []"
    and neg: "fsub (speed (game w)) lit_0_1 < 0"
  shows "run w = Inl ValueError"
  using assms
  by (simp add: run_def for_each_toggle_off add_ok show_pattern_neg)

text \<open>
  \<open>blinks ws\<close>: the writes \<open>ws\<close> are flashes, each an on followed by an off of the same
  line. Flashes leave dark every line that was dark, so all LEDs are off after
  \<open>start()\<close>. The two lemmas on \<open>watch_nth\<close> are the press of a button never pressed before
  (its first \<open>cooling()\<close> returns 10) on a dark LED.
\<close>

fun blinks :: "(nat \<times> bool) list \<Rightarrow> bool" where
  "blinks [] = True"
| "blinks ((p, a) # (q, b) # ws) = (p = q \<and> a \<and> \<not> b \<and> blinks ws)"
| "blinks [x] = False"

lemma blinks_append: "blinks xs \<Longrightarrow> blinks ys \<Longrightarrow> blinks (xs @ ys)"
  by (induction xs rule: blinks.induct) simp_all

lemma blinks_concat: "(\<And>xs. xs \<in> set xss \<Longrightarrow> blinks xs) \<Longrightarrow> blinks (concat xss)"
  by (induction xss) (simp_all add: blinks_append)

lemma blinks_blink [simp]: "blinks (blink w pair)"
  by (simp add: blink_def)

lemma blinks_forward [simp]: "blinks (forward_writes w)"
  unfolding forward_writes_def by (rule blinks_concat) auto

lemma blinks_backward [simp]: "blinks (backward_writes w)"
  unfolding backward_writes_def by (rule blinks_concat) auto

lemma gpio_out_apply_writes:
  "gpio_out (apply_writes ws w) = foldl (\<lambda>g (port, level). g(port := level)) (gpio_out w) ws"
  by (simp add: apply_writes_def)

lemma blinks_leave_off:
  "blinks ws \<Longrightarrow> \<not> gpio_out w port \<Longrightarrow> \<not> gpio_out (apply_writes ws w) port"
proof (induction ws arbitrary: w rule: blinks.induct)
  case 1
  then show ?case by simp
next
  case (2 p a q b ws)
  then have bw: "blinks ws" and pq: "p = q" "a" "\<not> b" by simp_all
  have mid: "\<not> gpio_out (apply_writes [(p, a), (q, b)] w) port"
    using pq "2.prems"(2) by (simp add: gpio_out_apply_writes)
  have "\<not> gpio_out (apply_writes ws (apply_writes [(p, a), (q, b)] w)) port"
    using bw mid by (rule "2.IH")
  then show ?case by simp
next
  case (3 x)
  then show ?case by simp
qed

lemma start_ok:
  assumes "p_pairs (pattern (game w)) \<noteq> []" and "0 \<le> cycle (pattern (game w))"
    and "0 \<le> speed (game w)"
  shows "\<exists>w'. start w = Inr w'
     \<and> game w' = (game w)\<lparr>pattern :=
          (pattern (game w))\<lparr>p_pattern := [choice_at w 0, choice_at w 1, choice_at w 2],
                                        new := True\<rparr>\<rparr>
     \<and> led_obj w' = led_obj w \<and> pair_obj w' = pair_obj w \<and> button_obj w' = button_obj w
     \<and> gpio_in w' = gpio_in w \<and> n_in w' = n_in w \<and> clock w' = clock w \<and> n_clock w' = n_clock w
     \<and> rand w' = rand w \<and> n_rand w' = n_rand w + 3
     \<and> (\<forall>port. \<not> gpio_out w port \<longrightarrow> \<not> gpio_out w' port)"
proof -
  let ?a = "concat (replicate 10 (forward_writes w @ backward_writes w))"
  have a: "blinks ?a"
    by (rule blinks_concat) (auto simp add: blinks_append)
  obtain w2 where g: "generate (apply_writes ?a w) = Inr w2"
    and g2: "game w2 = (game w)\<lparr>pattern :=
          (pattern (game w))\<lparr>p_pattern := [choice_at w 0, choice_at w 1, choice_at w 2],
                                        new := True\<rparr>\<rparr>"
    and f2: "led_obj w2 = led_obj w" "pair_obj w2 = pair_obj w" "button_obj w2 = button_obj w"
      "gpio_in w2 = gpio_in w" "n_in w2 = n_in w" "clock w2 = clock w" "n_clock w2 = n_clock w"
      "rand w2 = rand w" "n_rand w2 = n_rand w + 3"
      "gpio_out w2 = gpio_out (apply_writes ?a w)"
    using assms(1) by (simp add: generate_ok choice_at_def)
  let ?s = "concat (map (blink w2) (p_pattern (pattern (game w2))))"
  have s: "blinks ?s" by (rule blinks_concat) auto
  have "start w = Inr (apply_writes ?s w2)"
    using assms g g2 by (simp add: start_def cycle_lights_ok show_pattern_ok)
  moreover have "\<not> gpio_out (apply_writes ?s w2) port" if "\<not> gpio_out w port" for port
    using blinks_leave_off [OF s, of w2 port] blinks_leave_off [OF a that] f2 by simp
  ultimately show ?thesis using g2 f2 by simp
qed

lemma cooling_other_button:
  "b' \<noteq> b \<Longrightarrow> button_obj (snd (cooling b w)) b' = button_obj w b'"
  by (simp add: cooling_def time_time_def Let_def split: option.splits)

lemma after_reads_buttons [simp]:
  "button_port (button_obj (after_reads pair w) b) = button_port (button_obj w b)"
  "b \<noteq> button (pair_obj w pair) \<Longrightarrow> button_obj (after_reads pair w) b = button_obj w b"
  by (simp_all add: after_reads_def cooling_other_button)

lemma watch_nth_match:
  assumes "k < length (pairs (game w))"
    and "\<not> gpio_in w (n_in w) (pair_port w k)"
    and "\<not> gpio_out w (led_port w (pairs (game w) ! k))"
    and "last_time (button_obj w (button (pair_obj w (pairs (game w) ! k)))) = None"
    and "getitem (p_pattern (pattern (game w))) (index (game w)) = Inr expected"
    and "button (pair_obj w (pairs (game w) ! k)) = button (pair_obj w expected)"
  shows "watch_nth (int k) w =
     Inr (apply_writes [(led_port w (pairs (game w) ! k), True)]
            ((after_reads (pairs (game w) ! k) w)\<lparr>game := (game w)\<lparr>index := index (game w) + 1\<rparr>\<rparr>))"
  using assms
  by (simp add: watch_nth_def getitem_nat watch_pair_pressed pair_port_def status_def
      led_port_def cooling_fresh lit_0_05_value toggle_writes)

lemma watch_nth_index_error:
  assumes "k < length (pairs (game w))"
    and "\<not> gpio_in w (n_in w) (pair_port w k)"
    and "\<not> gpio_out w (led_port w (pairs (game w) ! k))"
    and "last_time (button_obj w (button (pair_obj w (pairs (game w) ! k)))) = None"
    and "getitem (p_pattern (pattern (game w))) (index (game w)) = Inl IndexError"
  shows "watch_nth (int k) w = Inl IndexError"
  using assms
  by (simp add: watch_nth_def getitem_nat watch_pair_pressed pair_port_def status_def
      led_port_def cooling_fresh lit_0_05_value)

subsection \<open>What a call that returns has left unchanged\<close>

lemma for_each_preserves:
  assumes "\<And>x v v'. body x v = Inr v' \<Longrightarrow> P v \<Longrightarrow> P v'"
  shows "for_each xs body w = Inr w' \<Longrightarrow> P w \<Longrightarrow> P w'"
proof (induction xs arbitrary: w)
  case Nil
  then show ?case by simp
next
  case (Cons x xs)
  from Cons.prems(1) obtain v where v: "body x w = Inr v" and rest: "for_each xs body v = Inr w'"
    by (auto split: sum.splits)
  from assms [OF v Cons.prems(2)] have "P v" .
  with Cons.IH [OF rest] show ?case .
qed

lemma show_step_game: "show_step pair w = Inr w' \<Longrightarrow> game w' = game w"
  by (auto simp add: show_step_def time_sleep_def toggle_writes split: if_splits)

lemma show_pattern_game: "show_pattern w = Inr w' \<Longrightarrow> game w' = game w"
  unfolding show_pattern_def
  by (rule for_each_preserves [where P = "\<lambda>v. game v = game w"]) (simp_all add: show_step_game)

lemma flash_game: "flash i w = Inr w' \<Longrightarrow> game w' = game w"
  by (auto simp add: flash_def and_then_def time_sleep_def toggle_writes
      split: if_splits sum.splits)

lemma cycle_forward_game: "cycle_forward w = Inr w' \<Longrightarrow> game w' = game w"
  unfolding cycle_forward_def
  by (rule for_each_preserves [where P = "\<lambda>v. game v = game w"]) (simp_all add: flash_game)

lemma cycle_backward_game: "cycle_backward w = Inr w' \<Longrightarrow> game w' = game w"
  unfolding cycle_backward_def
  by (rule for_each_preserves [where P = "\<lambda>v. game v = game w"]) (simp_all add: flash_game)

lemma cycle_loop_game: "cycle_loop k w = Inr w' \<Longrightarrow> game w' = game w"
proof (induction k w rule: cycle_loop.induct)
  case (1 iterations w)
  show ?case
  proof (cases "iterations < 10")
    case True
    with "1.prems" obtain w1 w2 where f: "cycle_forward w = Inr w1"
      and b: "cycle_backward w1 = Inr w2" and r: "cycle_loop (iterations + 1) w2 = Inr w'"
      by (auto simp add: cycle_loop.simps [of iterations w] split: sum.splits)
    from "1.IH" [OF True f b r] cycle_forward_game [OF f] cycle_backward_game [OF b]
    show ?thesis by simp
  next
    case False
    with "1.prems" show ?thesis by (simp add: cycle_loop.simps [of iterations w])
  qed
qed

lemma cycle_lights_game: "cycle_lights w = Inr w' \<Longrightarrow> game w' = game w"
  unfolding cycle_lights_def by (rule cycle_loop_game)

lemma generate_length:
  "generate w = Inr w' \<Longrightarrow> length (p_pattern (pattern (game w'))) = 3"
  by (cases "p_pairs (pattern (game w)) = []") (auto simp add: generate_empty generate_ok)

lemma add_length:
  "add w = Inr w' \<Longrightarrow>
     length (p_pattern (pattern (game w'))) = length (p_pattern (pattern (game w))) + 1"
proof (cases "p_pairs (pattern (game w)) = []")
  case True
  assume "add w = Inr w'"
  with True show ?thesis by (simp add: add_def append_choice_empty)
next
  case False
  assume "add w = Inr w'"
  with add_ok [OF False] show ?thesis by auto
qed

lemma reset_length:
  assumes "reset w = Inr w'"
  shows "length (p_pattern (pattern (game w'))) = 3"
proof -
  from assms obtain w1 w2 where g: "generate (w\<lparr>game := (game w)\<lparr>index := 0, speed := 1\<rparr>\<rparr>) = Inr w1"
    and c: "cycle_lights w1 = Inr w2" and s: "show_pattern w2 = Inr w'"
    by (auto simp add: reset_def and_then_def split: sum.splits)
  from generate_length [OF g] cycle_lights_game [OF c] show_pattern_game [OF s]
  show ?thesis by simp
qed

lemma start_length:
  assumes "start w = Inr w'"
  shows "length (p_pattern (pattern (game w'))) = 3"
proof -
  from assms obtain w1 w2 where c: "cycle_lights w = Inr w1"
    and g: "generate w1 = Inr w2" and s: "show_pattern w2 = Inr w'"
    by (auto simp add: start_def and_then_def split: sum.splits)
  from generate_length [OF g] show_pattern_game [OF s]
  show ?thesis by simp
qed

lemma Game_init_length:
  "Game_init prs w = Inr w' \<Longrightarrow> length (p_pattern (pattern (game w'))) = 3"
  by (auto simp add: Game_init_def Pattern_init_def and_then_def split: sum.splits
      dest: generate_length)

lemma watch_pair_pattern:
  assumes "watch_pair pair w = Inr w'"
  shows "pattern (game w') = pattern (game w)
     \<or> (\<exists>v v'. reset v = Inr v' \<and> pattern (game w') = pattern (game v'))"
proof (cases "gpio_in w (n_in w) (button_port (button_obj w (button (pair_obj w pair))))")
  case True
  with assms show ?thesis by (auto simp add: watch_pair_released)
next
  case False
  note wp = assms [unfolded watch_pair_pressed [OF False]]
  show ?thesis
  proof (cases "status (led (pair_obj w pair)) w = ''Off''
      \<and> lit_0_05 < fst (cooling (button (pair_obj w pair)) w)")
    case False
    with wp show ?thesis by (auto simp add: toggle_writes split: if_splits)
  next
    case True
    with wp obtain expected
      where e: "getitem (p_pattern (pattern (game w))) (index (game w)) = Inr expected"
      by (auto simp add: and_then_def split: sum.splits)
    show ?thesis
    proof (cases "button (pair_obj w pair) = button (pair_obj w expected)")
      case True
      with wp \<open>status (led (pair_obj w pair)) w = ''Off''
          \<and> lit_0_05 < fst (cooling (button (pair_obj w pair)) w)\<close> e
      show ?thesis by (auto simp add: toggle_writes)
    next
      case False
      with wp \<open>status (led (pair_obj w pair)) w = ''Off''
          \<and> lit_0_05 < fst (cooling (button (pair_obj w pair)) w)\<close> e
      obtain v' where r: "reset (after_reads pair w) = Inr v'"
        and w': "w' = toggle (led (pair_obj v' pair)) ''On'' v'"
        by (auto simp add: and_then_def split: sum.splits)
      from w' have "pattern (game w') = pattern (game v')" by (simp add: toggle_writes)
      with r show ?thesis by blast
    qed
  qed
qed


lemma watch_nth_pattern:
  assumes "watch_nth k w = Inr w'"
  shows "pattern (game w') = pattern (game w)
     \<or> (\<exists>v v'. reset v = Inr v' \<and> pattern (game w') = pattern (game v'))"
proof -
  from assms obtain pair where "watch_pair pair w = Inr w'"
    by (auto simp add: watch_nth_def and_then_def split: sum.splits)
  then show ?thesis by (rule watch_pair_pattern)
qed

lemma run_branch_length:
  assumes "(if int (length (p_pattern (pattern (game w)))) \<le> index (game w) then
          and_then
            (for_each (pairs (game w)) (\<lambda>pair w'. Inr (toggle (led (pair_obj w' pair)) ''Off'' w')) w)
            (\<lambda>w1.
               and_then (add (w1\<lparr>game := (game w1)\<lparr>speed := fsub (speed (game w1)) lit_0_1\<rparr>\<rparr>))
                 (\<lambda>w2. and_then (show_pattern w2)
                    (\<lambda>w3. Inr (w3\<lparr>game := (game w3)\<lparr>index := 0\<rparr>\<rparr>))))
        else Inr w) = Inr w4"
  shows "length (p_pattern (pattern (game w))) \<le> length (p_pattern (pattern (game w4)))"
proof (cases "int (length (p_pattern (pattern (game w)))) \<le> index (game w)")
  case False
  with assms show ?thesis by simp
next
  case True
  let ?w1 = "apply_writes (map (\<lambda>pair. (led_port w pair, False)) (pairs (game w))) w"
  from assms True obtain w2 w3
    where a: "add (?w1\<lparr>game := (game ?w1)\<lparr>speed := fsub (speed (game ?w1)) lit_0_1\<rparr>\<rparr>) = Inr w2"
      and s: "show_pattern w2 = Inr w3" and e: "w4 = w3\<lparr>game := (game w3)\<lparr>index := 0\<rparr>\<rparr>"
    by (auto simp add: for_each_toggle_off and_then_def split: sum.splits)
  from add_length [OF a] show_pattern_game [OF s] e show ?thesis by simp
qed

lemma run_pattern:
  assumes "run w = Inr w'"
  shows "length (p_pattern (pattern (game w))) \<le> length (p_pattern (pattern (game w')))
     \<or> (\<exists>v v'. reset v = Inr v' \<and> pattern (game w') = pattern (game v'))"
proof -
  from assms obtain w4 w5 w6 w7
    where b: "(if int (length (p_pattern (pattern (game w)))) \<le> index (game w) then
          and_then
            (for_each (pairs (game w)) (\<lambda>pair w'. Inr (toggle (led (pair_obj w' pair)) ''Off'' w')) w)
            (\<lambda>w1.
               and_then (add (w1\<lparr>game := (game w1)\<lparr>speed := fsub (speed (game w1)) lit_0_1\<rparr>\<rparr>))
                 (\<lambda>w2. and_then (show_pattern w2)
                    (\<lambda>w3. Inr (w3\<lparr>game := (game w3)\<lparr>index := 0\<rparr>\<rparr>))))
        else Inr w) = Inr w4"
      and s0: "watch_nth 0 w4 = Inr w5" and s1: "watch_nth 1 w5 = Inr w6"
      and s2: "watch_nth 2 w6 = Inr w7" and s3: "watch_nth 3 w7 = Inr w'"
    unfolding run_def and_then_def by (auto split: sum.splits)
  note l = run_branch_length [OF b]
  note p = watch_nth_pattern [OF s0] watch_nth_pattern [OF s1] watch_nth_pattern [OF s2]
    watch_nth_pattern [OF s3]
  show ?thesis
  proof (cases "\<exists>v v'. reset v = Inr v' \<and> pattern (game w') = pattern (game v')")
    case True
    then show ?thesis by simp
  next
    case False
    with p(4) have e3: "pattern (game w') = pattern (game w7)" by simp
    with False p(3) have e2: "pattern (game w7) = pattern (game w6)" by auto
    with False e3 p(2) have e1: "pattern (game w6) = pattern (game w5)" by auto
    with False e3 e2 p(1) have e0: "pattern (game w5) = pattern (game w4)" by auto
    from l e0 e1 e2 e3 show ?thesis by simp
  qed
qed

lemma run_keeps_three:
  assumes "run w = Inr w'" and "3 \<le> length (p_pattern (pattern (game w)))"
  shows "3 \<le> length (p_pattern (pattern (game w')))"
  using run_pattern [OF assms(1)] assms(2) by (auto dest: reset_length)

lemma ticks_keep_three:
  "ticks n w = Inr w' \<Longrightarrow> 3 \<le> length (p_pattern (pattern (game w))) \<Longrightarrow>
     3 \<le> length (p_pattern (pattern (game w')))"
proof (induction n arbitrary: w)
  case 0
  then show ?case by simp
next
  case (Suc n)
  from Suc.prems(1) obtain w1 where r: "run w = Inr w1" and t: "ticks n w1 = Inr w'"
    by (auto split: sum.splits)
  from Suc.IH [OF t run_keeps_three [OF r Suc.prems(2)]] show ?case .
qed

text \<open>
  A session: \<open>Game(pairs)\<close>, \<open>game.start()\<close>, then \<open>n\<close> passes of the main loop.
\<close>

definition session :: "ref list \<Rightarrow> world \<Rightarrow> nat \<Rightarrow> py_error + world" where
  "session prs w0 n = and_then (Game_init prs w0) (\<lambda>w1. and_then (start w1) (ticks n))"

lemma session_three:
  assumes "session prs w0 n = Inr w'"
  shows "3 \<le> length (p_pattern (pattern (game w')))"
proof -
  from assms obtain w1 w2 where "Game_init prs w0 = Inr w1" and s: "start w1 = Inr w2"
    and t: "ticks n w2 = Inr w'"
    by (auto simp add: session_def and_then_def split: sum.splits)
  from start_length [OF s] have "3 \<le> length (p_pattern (pattern (game w2)))" by simp
  with t show ?thesis by (rule ticks_keep_three)
qed

section \<open>Passes of the loop\<close>

text \<open>
  One pass of the loop is one call of \<open>run()\<close>. \<open>run_branch\<close> is its \<open>if\<close> statement (the
  round is completed: all LEDs off, \<open>speed -= 0.1\<close>, \<open>add()\<close>, \<open>show_pattern()\<close>,
  \<open>index = 0\<close>), and \<open>before_watch k w\<close> is the world in which the \<open>k\<close>-th of the four
  \<open>watch_pair\<close> calls of the pass that starts in \<open>w\<close> begins, so that \<open>before_watch 4\<close> is
  \<open>run\<close>.

  \<open>wrong_press pair w\<close> is the condition under which \<open>watch_pair(pair)\<close> reaches its call of
  \<open>reset()\<close>: the button reads pressed, the LED reads \<open>Off\<close>, \<open>cooling()\<close> exceeds
  \<open>0.05\<close>, and the button is not the button of \<open>pattern[index]\<close>. \<open>wrong_nth k\<close> is the
  same for \<open>pairs[k]\<close>, and \<open>mistake_in_pass w\<close> says that one of the four calls of the pass
  that starts in \<open>w\<close> meets it. \<open>round_won w\<close> is the test \<open>index >= len(pattern)\<close> of
  \<open>run()\<close>: the pass that starts in \<open>w\<close> completes a round.

  \<open>slower\<close> is the statement \<open>self.speed -= 0.1\<close>. Of the next \<open>n\<close> passes, \<open>wins n w\<close>
  counts those that complete a round, and \<open>mistake_free n w\<close> says that none meets a wrong
  press; \<open>plays w a w' c\<close>: the next \<open>a\<close> passes return, lead from \<open>w\<close> to \<open>w'\<close>, meet no
  wrong press and complete \<open>c\<close> rounds.
\<close>

definition run_branch :: "world \<Rightarrow> py_error + world" where
  "run_branch w =
     (if int (length (p_pattern (pattern (game w)))) \<le> index (game w) then
        and_then
          (for_each (pairs (game w)) (\<lambda>pair w'. Inr (toggle (led (pair_obj w' pair)) ''Off'' w')) w)
          (\<lambda>w1.
             and_then (add (w1\<lparr>game := (game w1)\<lparr>speed := fsub (speed (game w1)) lit_0_1\<rparr>\<rparr>))
               (\<lambda>w2. and_then (show_pattern w2)
                  (\<lambda>w3. Inr (w3\<lparr>game := (game w3)\<lparr>index := 0\<rparr>\<rparr>))))
      else Inr w)"

fun before_watch :: "nat \<Rightarrow> world \<Rightarrow> py_error + world" where
  "before_watch 0 w = run_branch w"
| "before_watch (Suc k) w = and_then (before_watch k w) (watch_nth (int k))"

definition wrong_press :: "ref \<Rightarrow> world \<Rightarrow> bool" where
  "wrong_press pair w \<longleftrightarrow>
     \<not> gpio_in w (n_in w) (button_port (button_obj w (button (pair_obj w pair))))
     \<and> status (led (pair_obj w pair)) w = ''Off''
     \<and> lit_0_05 < fst (cooling (button (pair_obj w pair)) w)
     \<and> (case getitem (p_pattern (pattern (game w))) (index (game w)) of
           Inl e \<Rightarrow> False
         | Inr expected \<Rightarrow> button (pair_obj w pair) \<noteq> button (pair_obj w expected))"

definition wrong_nth :: "nat \<Rightarrow> world \<Rightarrow> bool" where
  "wrong_nth k w =
     (case getitem (pairs (game w)) (int k) of Inl e \<Rightarrow> False | Inr pair \<Rightarrow> wrong_press pair w)"

definition mistake_at :: "nat \<Rightarrow> world \<Rightarrow> bool" where
  "mistake_at k w = (case before_watch k w of Inl e \<Rightarrow> False | Inr u \<Rightarrow> wrong_nth k u)"

definition mistake_in_pass :: "world \<Rightarrow> bool" where
  "mistake_in_pass w \<longleftrightarrow> mistake_at 0 w \<or> mistake_at 1 w \<or> mistake_at 2 w \<or> mistake_at 3 w"

definition round_won :: "world \<Rightarrow> bool" where
  "round_won w \<longleftrightarrow> int (length (p_pattern (pattern (game w)))) \<le> index (game w)"

definition slower :: "real \<Rightarrow> real" where
  "slower s = fsub s lit_0_1"

fun wins :: "nat \<Rightarrow> world \<Rightarrow> nat" where
  "wins 0 w = 0"
| "wins (Suc n) w =
     (if round_won w then 1 else 0) + (case run w of Inl e \<Rightarrow> 0 | Inr w' \<Rightarrow> wins n w')"

fun mistake_free :: "nat \<Rightarrow> world \<Rightarrow> bool" where
  "mistake_free 0 w = True"
| "mistake_free (Suc n) w =
     (\<not> mistake_in_pass w \<and> (case run w of Inl e \<Rightarrow> True | Inr w' \<Rightarrow> mistake_free n w'))"

definition plays :: "world \<Rightarrow> nat \<Rightarrow> world \<Rightarrow> nat \<Rightarrow> bool" where
  "plays w a w' c \<longleftrightarrow> ticks a w = Inr w' \<and> mistake_free a w \<and> wins a w = c"

lemma slower_values:
  "slower 1 = 8106479329266893 / 9007199254740992"
  "slower (8106479329266893 / 9007199254740992) = 3602879701896397 / 4503599627370496"
  "slower (3602879701896397 / 4503599627370496) = 6305039478318695 / 9007199254740992"
  "slower (6305039478318695 / 9007199254740992) = 1351079888211149 / 2251799813685248"
  "slower (1351079888211149 / 2251799813685248) = 4503599627370497 / 9007199254740992"
  "slower (4503599627370497 / 9007199254740992) = 1801439850948199 / 4503599627370496"
  "slower (1801439850948199 / 4503599627370496) = 2702159776422299 / 9007199254740992"
  "slower (2702159776422299 / 9007199254740992) = 7205759403792799 / 36028797018963968"
  "slower (7205759403792799 / 36028797018963968) = 1801439850948201 / 18014398509481984"
  "slower (1801439850948201 / 18014398509481984) = 5 / 36028797018963968"
  "slower (5 / 36028797018963968) = - (450359962737049 / 4503599627370496)"
  by (simp_all add: slower_def lit_0_1_value float_eval)

lemma slower_ten: "(slower ^^ 10) 1 = 5 / 36028797018963968"
  by (simp add: eval_nat_numeral slower_values)

lemma slower_eleven: "(slower ^^ 11) 1 = - (450359962737049 / 4503599627370496)"
  by (simp add: eval_nat_numeral slower_values)

lemma slower_upto_ten: "m \<le> 10 \<Longrightarrow> 0 \<le> (slower ^^ m) 1"
proof -
  assume "m \<le> 10"
  then have "m = 0 \<or> m = 1 \<or> m = 2 \<or> m = 3 \<or> m = 4 \<or> m = 5 \<or> m = 6 \<or> m = 7 \<or> m = 8
      \<or> m = 9 \<or> m = 10"
    by arith
  then show ?thesis
    by (elim disjE) (simp_all add: eval_nat_numeral slower_values)
qed

lemma Game_init_ok:
  assumes "prs \<noteq> []"
  shows "\<exists>w'. Game_init prs w = Inr w' \<and> speed (game w') = 1 \<and> index (game w') = 0
     \<and> pairs (game w') = prs \<and> p_pairs (pattern (game w')) = prs
     \<and> cycle (pattern (game w')) = lit_0_06 \<and> length (p_pattern (pattern (game w'))) = 3"
  using assms by (simp add: Game_init_def Pattern_init_def generate_ok)

lemma Game_init_speed: "Game_init prs w = Inr w' \<Longrightarrow> speed (game w') = 1"
proof (cases "prs = []")
  case True
  assume "Game_init prs w = Inr w'"
  with True show ?thesis by (simp add: Game_init_def Pattern_init_def generate_empty)
next
  case False
  assume "Game_init prs w = Inr w'"
  with Game_init_ok [OF False, of w] show ?thesis by auto
qed

lemma run_before_watch: "run w = before_watch 4 w"
  by (cases "run_branch w")
    (simp_all add: run_def run_branch_def eval_nat_numeral and_then_def split: sum.splits)

lemma watch_pair_wrong:
  assumes "wrong_press pair w"
  shows "watch_pair pair w =
     and_then (reset (after_reads pair w)) (\<lambda>w3. Inr (toggle (led (pair_obj w3 pair)) ''On'' w3))"
proof -
  from assms obtain expected
    where e: "getitem (p_pattern (pattern (game w))) (index (game w)) = Inr expected"
      and ne: "button (pair_obj w pair) \<noteq> button (pair_obj w expected)"
    by (auto simp add: wrong_press_def split: sum.splits)
  from assms have p: "\<not> gpio_in w (n_in w) (button_port (button_obj w (button (pair_obj w pair))))"
    and s: "status (led (pair_obj w pair)) w = ''Off''"
    and c: "lit_0_05 < fst (cooling (button (pair_obj w pair)) w)"
    by (simp_all add: wrong_press_def)
  show ?thesis using s c e ne by (simp add: watch_pair_pressed [OF p])
qed

lemma watch_pair_right:
  assumes "\<not> wrong_press pair w" and "watch_pair pair w = Inr w'"
  shows "game w' = game w \<or> game w' = (game w)\<lparr>index := index (game w) + 1\<rparr>"
proof (cases "gpio_in w (n_in w) (button_port (button_obj w (button (pair_obj w pair))))")
  case True
  with assms(2) show ?thesis by (auto simp add: watch_pair_released)
next
  case False
  note wp = assms(2) [unfolded watch_pair_pressed [OF False]]
  show ?thesis
  proof (cases "status (led (pair_obj w pair)) w = ''Off''
      \<and> lit_0_05 < fst (cooling (button (pair_obj w pair)) w)")
    case False
    with wp show ?thesis by (auto simp add: toggle_writes split: if_splits)
  next
    case True
    with wp obtain expected
      where e: "getitem (p_pattern (pattern (game w))) (index (game w)) = Inr expected"
      by (auto simp add: and_then_def split: sum.splits)
    with assms(1) False True
    have "button (pair_obj w pair) = button (pair_obj w expected)"
      by (simp add: wrong_press_def)
    with wp True e show ?thesis by (auto simp add: toggle_writes)
  qed
qed

lemma watch_nth_right:
  assumes "\<not> wrong_nth k w" and "watch_nth (int k) w = Inr w'"
  shows "game w' = game w \<or> game w' = (game w)\<lparr>index := index (game w) + 1\<rparr>"
proof -
  from assms(2) obtain pair where g: "getitem (pairs (game w)) (int k) = Inr pair"
    and wp: "watch_pair pair w = Inr w'"
    by (auto simp add: watch_nth_def and_then_def split: sum.splits)
  from assms(1) g have "\<not> wrong_press pair w" by (simp add: wrong_nth_def)
  then show ?thesis using wp by (rule watch_pair_right)
qed

lemma watch_nth_wrong:
  assumes "wrong_nth k w"
  shows "\<exists>pair. getitem (pairs (game w)) (int k) = Inr pair \<and> wrong_press pair w
     \<and> watch_nth (int k) w =
         and_then (reset (after_reads pair w)) (\<lambda>w3. Inr (toggle (led (pair_obj w3 pair)) ''On'' w3))"
proof -
  from assms obtain pair where g: "getitem (pairs (game w)) (int k) = Inr pair"
    and wp: "wrong_press pair w"
    by (auto simp add: wrong_nth_def split: sum.splits)
  then show ?thesis by (auto simp add: watch_nth_def watch_pair_wrong)
qed

lemma run_branch_game:
  assumes "run_branch w = Inr w4"
  shows "if round_won w
         then \<exists>x. game w4 = (game w)\<lparr>speed := fsub (speed (game w)) lit_0_1,
                pattern := (pattern (game w))\<lparr>p_pattern := p_pattern (pattern (game w)) @ [x],
                                              new := True\<rparr>,
                index := 0\<rparr>
         else w4 = w"
proof (cases "round_won w")
  case False
  with assms show ?thesis by (simp add: run_branch_def round_won_def)
next
  case True
  let ?w1 = "apply_writes (map (\<lambda>pair. (led_port w pair, False)) (pairs (game w))) w"
  let ?w1' = "?w1\<lparr>game := (game ?w1)\<lparr>speed := fsub (speed (game ?w1)) lit_0_1\<rparr>\<rparr>"
  from assms True obtain w2 w3
    where a: "add ?w1' = Inr w2"
      and s: "show_pattern w2 = Inr w3" and e: "w4 = w3\<lparr>game := (game w3)\<lparr>index := 0\<rparr>\<rparr>"
    by (auto simp add: run_branch_def round_won_def for_each_toggle_off and_then_def
        split: sum.splits)
  have pool: "p_pairs (pattern (game ?w1')) \<noteq> []"
  proof
    assume "p_pairs (pattern (game ?w1')) = []"
    then have "add ?w1' = Inl IndexError" by (simp add: add_def append_choice_empty)
    with a show False by simp
  qed
  from add_ok [OF pool] a
  have "game w2 = (game w)\<lparr>speed := fsub (speed (game w)) lit_0_1,
                pattern := (pattern (game w))\<lparr>p_pattern :=
                   p_pattern (pattern (game w)) @ [choice_at ?w1' 0], new := True\<rparr>\<rparr>"
    by auto
  with show_pattern_game [OF s] e True show ?thesis by auto
qed

lemma pass_parts:
  assumes "run w = Inr w'"
  shows "\<exists>u0 u1 u2 u3. before_watch 0 w = Inr u0 \<and> before_watch 1 w = Inr u1
     \<and> before_watch 2 w = Inr u2 \<and> before_watch 3 w = Inr u3
     \<and> watch_nth 0 u0 = Inr u1 \<and> watch_nth 1 u1 = Inr u2 \<and> watch_nth 2 u2 = Inr u3
     \<and> watch_nth 3 u3 = Inr w'"
  using assms unfolding run_before_watch
  by (auto simp add: eval_nat_numeral and_then_def split: sum.splits)

lemma quiet_pass:
  assumes r: "run w = Inr w'" and q: "\<not> mistake_in_pass w"
  shows "speed (game w') = (if round_won w then fsub (speed (game w)) lit_0_1 else speed (game w))"
    and "length (p_pattern (pattern (game w))) \<le> length (p_pattern (pattern (game w')))"
    and "pairs (game w') = pairs (game w)"
proof -
  from pass_parts [OF r] obtain u0 u1 u2 u3
    where b: "before_watch 0 w = Inr u0" "before_watch 1 w = Inr u1"
      "before_watch 2 w = Inr u2" "before_watch 3 w = Inr u3"
      and s: "watch_nth (int 0) u0 = Inr u1" "watch_nth (int 1) u1 = Inr u2"
        "watch_nth (int 2) u2 = Inr u3" "watch_nth (int 3) u3 = Inr w'"
    by auto
  from q b have n: "\<not> wrong_nth 0 u0" "\<not> wrong_nth 1 u1" "\<not> wrong_nth 2 u2" "\<not> wrong_nth 3 u3"
    by (simp_all add: mistake_in_pass_def mistake_at_def)
  note g = watch_nth_right [OF n(1) s(1)] watch_nth_right [OF n(2) s(2)]
    watch_nth_right [OF n(3) s(3)] watch_nth_right [OF n(4) s(4)]
  from g have sp: "speed (game w') = speed (game u0)"
    and pt: "pattern (game w') = pattern (game u0)"
    and pr: "pairs (game w') = pairs (game u0)"
    by auto
  from b(1) have rb: "run_branch w = Inr u0" by simp
  note rg = run_branch_game [OF rb]
  show "speed (game w') = (if round_won w then fsub (speed (game w)) lit_0_1 else speed (game w))"
    using rg sp by (auto split: if_splits)
  show "length (p_pattern (pattern (game w))) \<le> length (p_pattern (pattern (game w')))"
    using rg pt by (auto split: if_splits)
  show "pairs (game w') = pairs (game w)"
    using rg pr by (auto split: if_splits)
qed

lemma speed_after_ticks:
  "ticks n w = Inr w' \<Longrightarrow> mistake_free n w \<Longrightarrow>
     speed (game w') = (slower ^^ wins n w) (speed (game w))"
proof (induction n arbitrary: w)
  case 0
  then show ?case by simp
next
  case (Suc n)
  from Suc.prems(1) obtain w1 where r: "run w = Inr w1" and t: "ticks n w1 = Inr w'"
    by (auto split: sum.splits)
  from Suc.prems(2) r have q: "\<not> mistake_in_pass w" and f: "mistake_free n w1" by simp_all
  from Suc.IH [OF t f] have "speed (game w') = (slower ^^ wins n w1) (speed (game w1))" .
  also have "speed (game w1) = (if round_won w then slower (speed (game w)) else speed (game w))"
    using quiet_pass(1) [OF r q] by (simp add: slower_def)
  finally show ?case using r by (simp add: funpow_swap1)
qed

lemma generate_speed:
  assumes "generate w = Inr w'"
  shows "speed (game w') = speed (game w)"
proof (cases "p_pairs (pattern (game w)) = []")
  case True
  with assms show ?thesis by (simp add: generate_empty)
next
  case False
  from generate_ok [OF False] assms show ?thesis by auto
qed

lemma start_speed:
  assumes "start w = Inr w'"
  shows "speed (game w') = speed (game w)"
proof -
  from assms obtain w1 w2 where c: "cycle_lights w = Inr w1"
    and g: "generate w1 = Inr w2" and s: "show_pattern w2 = Inr w'"
    by (auto simp add: start_def and_then_def split: sum.splits)
  from cycle_lights_game [OF c] generate_speed [OF g] show_pattern_game [OF s]
  show ?thesis by simp
qed

lemma reset_regenerates:
  assumes "reset w = Inr w'"
  shows "\<exists>w1. generate (w\<lparr>game := (game w)\<lparr>index := 0, speed := 1\<rparr>\<rparr>) = Inr w1
     \<and> game w' = game w1"
proof -
  from assms obtain w1 w2 where g: "generate (w\<lparr>game := (game w)\<lparr>index := 0, speed := 1\<rparr>\<rparr>) = Inr w1"
    and c: "cycle_lights w1 = Inr w2" and s: "show_pattern w2 = Inr w'"
    by (auto simp add: reset_def and_then_def split: sum.splits)
  from cycle_lights_game [OF c] show_pattern_game [OF s] g show ?thesis by simp
qed

lemma watch_pair_cases:
  assumes "watch_pair pair w = Inr w'"
  shows "if wrong_press pair w
         then \<exists>v'. reset (after_reads pair w) = Inr v'
                \<and> w' = toggle (led (pair_obj v' pair)) ''On'' v'
         else pattern (game w') = pattern (game w)"
proof (cases "wrong_press pair w")
  case True
  from assms [unfolded watch_pair_wrong [OF True]] True show ?thesis
    by (auto simp add: and_then_def split: sum.splits)
next
  case False
  from watch_pair_right [OF False assms] False show ?thesis by auto
qed

lemma watch_nth_cases:
  assumes "watch_nth (int k) u = Inr u'"
  shows "(\<not> wrong_nth k u \<and> pattern (game u') = pattern (game u))
     \<or> (\<exists>pair v'. getitem (pairs (game u)) (int k) = Inr pair \<and> wrong_press pair u
          \<and> reset (after_reads pair u) = Inr v'
          \<and> watch_nth (int k) u = Inr (toggle (led (pair_obj v' pair)) ''On'' v')
          \<and> pattern (game u') = pattern (game v'))"
proof (cases "wrong_nth k u")
  case False
  from watch_nth_right [OF False assms] False show ?thesis by auto
next
  case True
  from watch_nth_wrong [OF True] obtain pair
    where g: "getitem (pairs (game u)) (int k) = Inr pair" and wp: "wrong_press pair u"
      and e: "watch_nth (int k) u =
         and_then (reset (after_reads pair u)) (\<lambda>w3. Inr (toggle (led (pair_obj w3 pair)) ''On'' w3))"
    by blast
  from e assms obtain v' where r: "reset (after_reads pair u) = Inr v'"
    and u': "u' = toggle (led (pair_obj v' pair)) ''On'' v'"
    by (auto simp add: and_then_def split: sum.splits)
  have "pattern (game u') = pattern (game v')" unfolding u' by (simp add: toggle_writes)
  with g wp r assms u' show ?thesis by blast
qed

lemma pass_pattern:
  assumes r: "run w = Inr w'"
  shows "length (p_pattern (pattern (game w))) \<le> length (p_pattern (pattern (game w')))
     \<or> (\<exists>k<4. \<exists>u pair v'. before_watch k w = Inr u
          \<and> getitem (pairs (game u)) (int k) = Inr pair \<and> wrong_press pair u
          \<and> reset (after_reads pair u) = Inr v'
          \<and> watch_nth (int k) u = Inr (toggle (led (pair_obj v' pair)) ''On'' v')
          \<and> pattern (game w') = pattern (game v'))"
proof -
  let ?R = "\<lambda>k u x. \<exists>pair v'. getitem (pairs (game u)) (int k) = Inr pair \<and> wrong_press pair u
          \<and> reset (after_reads pair u) = Inr v'
          \<and> watch_nth (int k) u = Inr (toggle (led (pair_obj v' pair)) ''On'' v')
          \<and> pattern (game x) = pattern (game v')"
  from pass_parts [OF r] obtain u0 u1 u2 u3
    where b: "before_watch 0 w = Inr u0" "before_watch 1 w = Inr u1"
      "before_watch 2 w = Inr u2" "before_watch 3 w = Inr u3"
      and s: "watch_nth (int 0) u0 = Inr u1" "watch_nth (int 1) u1 = Inr u2"
        "watch_nth (int 2) u2 = Inr u3" "watch_nth (int 3) u3 = Inr w'"
    by auto
  have found: ?thesis if "k < 4" "before_watch k w = Inr u" "?R k u w'" for k u
    using that by blast
  from b(1) have rb: "run_branch w = Inr u0" by simp
  have l0: "length (p_pattern (pattern (game w))) \<le> length (p_pattern (pattern (game u0)))"
    using run_branch_game [OF rb] by (auto split: if_splits)
  from watch_nth_cases [OF s(4)] show ?thesis
  proof
    assume "?R 3 u3 w'"
    with b(4) show ?thesis by (intro found [of 3 u3]) simp_all
  next
    assume a3: "\<not> wrong_nth 3 u3 \<and> pattern (game w') = pattern (game u3)"
    from watch_nth_cases [OF s(3)] show ?thesis
    proof
      assume "?R 2 u2 u3"
      with a3 have "?R 2 u2 w'" by simp
      with b(3) show ?thesis by (intro found [of 2 u2]) simp_all
    next
      assume a2: "\<not> wrong_nth 2 u2 \<and> pattern (game u3) = pattern (game u2)"
      from watch_nth_cases [OF s(2)] show ?thesis
      proof
        assume "?R 1 u1 u2"
        with a3 a2 have "?R 1 u1 w'" by simp
        with b(2) show ?thesis by (intro found [of 1 u1]) simp_all
      next
        assume a1: "\<not> wrong_nth 1 u1 \<and> pattern (game u2) = pattern (game u1)"
        from watch_nth_cases [OF s(1)] show ?thesis
        proof
          assume "?R 0 u0 u1"
          with a3 a2 a1 have "?R 0 u0 w'" by simp
          with b(1) show ?thesis by (intro found [of 0 u0]) simp_all
        next
          assume a0: "\<not> wrong_nth 0 u0 \<and> pattern (game u1) = pattern (game u0)"
          with a1 a2 a3 l0 show ?thesis by simp
        qed
      qed
    qed
  qed
qed

lemma before_watch_three:
  "before_watch k w = Inr u \<Longrightarrow> 3 \<le> length (p_pattern (pattern (game w))) \<Longrightarrow>
     3 \<le> length (p_pattern (pattern (game u)))"
proof (induction k arbitrary: u)
  case 0
  then have "run_branch w = Inr u" by simp
  from run_branch_game [OF this] "0.prems"(2) show ?case by (auto split: if_splits)
next
  case (Suc k)
  from Suc.prems(1) obtain v where b: "before_watch k w = Inr v"
    and s: "watch_nth (int k) v = Inr u"
    by (auto simp add: and_then_def split: sum.splits)
  from Suc.IH [OF b Suc.prems(2)] have "3 \<le> length (p_pattern (pattern (game v)))" .
  with watch_nth_pattern [OF s] show ?case by (auto dest: reset_length)
qed

lemma pass_from_parts:
  assumes "run_branch w = Inr u0"
    and "watch_nth (int 0) u0 = Inr u1" and "watch_nth (int 1) u1 = Inr u2"
    and "watch_nth (int 2) u2 = Inr u3" and "watch_nth (int 3) u3 = Inr w'"
    and "\<not> wrong_nth 0 u0" and "\<not> wrong_nth 1 u1" and "\<not> wrong_nth 2 u2" and "\<not> wrong_nth 3 u3"
  shows "run w = Inr w'" and "\<not> mistake_in_pass w"
proof -
  have b: "before_watch 0 w = Inr u0" "before_watch 1 w = Inr u1" "before_watch 2 w = Inr u2"
    "before_watch 3 w = Inr u3" "before_watch 4 w = Inr w'"
    using assms(1-5) by (simp_all add: eval_nat_numeral)
  show "run w = Inr w'" using b(5) by (simp add: run_before_watch)
  show "\<not> mistake_in_pass w"
    using b assms(6-9) by (simp add: mistake_in_pass_def mistake_at_def)
qed

lemma ticks_add: "ticks (a + b) w = and_then (ticks a w) (ticks b)"
  by (induction a arbitrary: w) (simp_all split: sum.splits)

lemma plays_zero: "plays w 0 w 0"
  by (simp add: plays_def)

lemma plays_one:
  "run w = Inr w' \<Longrightarrow> \<not> mistake_in_pass w \<Longrightarrow> plays w 1 w' (if round_won w then 1 else 0)"
  by (simp add: plays_def)

lemma plays_add:
  "plays w a w1 c \<Longrightarrow> plays w1 b w2 d \<Longrightarrow> plays w (a + b) w2 (c + d)"
proof (induction a arbitrary: w c)
  case 0
  then show ?case by (simp add: plays_def)
next
  case (Suc a)
  from Suc.prems(1) obtain v where r: "run w = Inr v" and t: "ticks a v = Inr w1"
    by (auto simp add: plays_def split: sum.splits)
  from Suc.prems(1) r have q: "\<not> mistake_in_pass w" and f: "mistake_free a v"
    and c: "c = (if round_won w then 1 else 0) + wins a v"
    by (auto simp add: plays_def)
  from t f have "plays v a w1 (wins a v)" by (simp add: plays_def)
  from Suc.IH [OF this Suc.prems(2)] have "plays v (a + b) w2 (wins a v + d)" .
  then show ?case using r q c by (simp add: plays_def)
qed

section \<open>Worlds for concrete runs\<close>

text \<open>
  \<open>table inp g\<close> is the main program's store with the game object \<open>g\<close>, a clock that
  advances one second per reading from 100, and the random choices 0, 1, 2, \<dots> (taken
  modulo the size of the pool). \<open>game_ybg\<close> is a game as \<open>Game(pairs)\<close> builds it, with the
  pattern yellow, blue, green.
\<close>

definition game_ybg :: Game where
  "game_ybg =
     \<lparr>pairs = [0, 1, 2, 3], speed = 1,
      pattern = \<lparr>p_pairs = [0, 1, 2, 3], new = True, cycle = lit_0_06, p_pattern = [0, 1, 2]\<rparr>,
      index = 0\<rparr>"

definition all_pressed :: "nat \<Rightarrow> nat \<Rightarrow> bool" where
  "all_pressed k port = False"

definition all_released :: "nat \<Rightarrow> nat \<Rightarrow> bool" where
  "all_released k port = True"

definition seconds_clock :: "nat \<Rightarrow> real" where
  "seconds_clock k = 100 + real k"

definition table :: "(nat \<Rightarrow> nat \<Rightarrow> bool) \<Rightarrow> Game \<Rightarrow> world" where
  "table inp g = (main_store inp seconds_clock (\<lambda>k. k))\<lparr>game := g\<rparr>"

lemma table_sel [simp]:
  "game (table inp g) = g"
  "pair_obj (table inp g) r = \<lparr>button = r, led = r\<rparr>"
  "gpio_out (table inp g) port = False"
  "gpio_in (table inp g) = inp"
  "n_in (table inp g) = 0"
  "n_clock (table inp g) = 0"
  "n_rand (table inp g) = 0"
  "rand (table inp g) k = k"
  "clock (table inp g) = seconds_clock"
  "gpio_log (table inp g) = []"
  "last_time (button_obj (table inp g) r) = None"
  by (simp_all add: table_def main_store_def)

text \<open>
  \<open>shared_button g\<close>: the same store with every button held down, except that the blue
  pair (number 1) was built as \<open>Pair(yellow_button, blue_led)\<close>: two distinct \<open>Pair\<close>
  objects hold the same \<open>Button\<close> object.
\<close>

definition shared_button :: "Game \<Rightarrow> world" where
  "shared_button g =
     (table all_pressed g)\<lparr>pair_obj := (\<lambda>r. if r = 1 then \<lparr>button = 0, led = 1\<rparr>
                                              else \<lparr>button = r, led = r\<rparr>)\<rparr>"

lemma shared_button_sel [simp]:
  "game (shared_button g) = g"
  "pair_obj (shared_button g) r = (if r = 1 then \<lparr>button = 0, led = 1\<rparr> else \<lparr>button = r, led = r\<rparr>)"
  "gpio_out (shared_button g) port = False"
  "gpio_in (shared_button g) = all_pressed"
  "n_in (shared_button g) = 0"
  "last_time (button_obj (shared_button g) r) = None"
  by (simp_all add: shared_button_def table_def main_store_def)

lemma table_ports [simp]:
  "led_port (table inp g) r = (if r = 0 then 18 else if r = 1 then 23 else if r = 2 then 19 else 20)"
  "button_port (button_obj (table inp g) r) =
     (if r = 0 then 17 else if r = 1 then 16 else if r = 2 then 13 else 12)"
  by (simp_all add: led_port_def table_def main_store_def)

text \<open>
  \<open>stuck_world\<close>: the same store under a clock that returns the same reading twice, as a
  clock of coarse resolution does for two calls close together.
\<close>

definition stuck_clock :: "nat \<Rightarrow> real" where
  "stuck_clock k = 100"

definition stuck_world :: world where
  "stuck_world = (table all_pressed game_ybg)\<lparr>clock := stuck_clock\<rparr>"

text \<open>
  The main program itself: \<open>main_game inp clk rnd\<close> returns a world with the pattern the
  fourth to sixth random choices give, every LED off and no button stamped.
  \<open>at_table w inp n g lit fresh\<close> describes a world of the main program's store: its game
  is \<open>g\<close>, \<open>n\<close> button reads are done, the lines in \<open>lit\<close> are on, and the buttons in
  \<open>fresh\<close> were never pressed. \<open>two_at_once\<close> is the player who presses yellow in the
  first pass of the loop, blue in the second, and green and red in the third;
  \<open>ybg_choices\<close> makes every generated pattern yellow, blue, green.
\<close>

lemma main_store_sel [simp]:
  "pair_obj (main_store inp clk rnd) r = \<lparr>button = r, led = r\<rparr>"
  "gpio_out (main_store inp clk rnd) port = False"
  "gpio_in (main_store inp clk rnd) = inp"
  "n_in (main_store inp clk rnd) = 0"
  "n_clock (main_store inp clk rnd) = 0"
  "n_rand (main_store inp clk rnd) = 0"
  "rand (main_store inp clk rnd) = rnd"
  "clock (main_store inp clk rnd) = clk"
  "gpio_log (main_store inp clk rnd) = []"
  "last_time (button_obj (main_store inp clk rnd) r) = None"
  "button_port (button_obj (main_store inp clk rnd) r) =
     (if r = 0 then 17 else if r = 1 then 16 else if r = 2 then 13 else 12)"
  "gpio_port (led_obj (main_store inp clk rnd) r) =
     (if r = 0 then 18 else if r = 1 then 23 else if r = 2 then 19 else 20)"
  by (simp_all add: main_store_def)

lemma main_game_ok:
  "\<exists>w. main_game inp clk rnd = Inr w
     \<and> game w = \<lparr>pairs = [0, 1, 2, 3], speed = 1,
          pattern = \<lparr>p_pairs = [0, 1, 2, 3], new = True, cycle = lit_0_06,
                     p_pattern = [[0, 1, 2, 3] ! (rnd 3 mod 4), [0, 1, 2, 3] ! (rnd 4 mod 4),
                                  [0, 1, 2, 3] ! (rnd 5 mod 4)]\<rparr>,
          index = 0\<rparr>
     \<and> led_obj w = led_obj (main_store inp clk rnd)
     \<and> pair_obj w = pair_obj (main_store inp clk rnd)
     \<and> button_obj w = button_obj (main_store inp clk rnd)
     \<and> gpio_in w = inp \<and> n_in w = 0 \<and> clock w = clk \<and> n_clock w = 0
     \<and> rand w = rnd
     \<and> (\<forall>port. \<not> gpio_out w port)"
proof -
  let ?m = "main_store inp clk rnd"
  let ?g = "\<lparr>pairs = [0, 1, 2, 3], speed = 1,
          pattern = \<lparr>p_pairs = [0, 1, 2, 3], new = True, cycle = lit_0_06,
                     p_pattern = [[0, 1, 2, 3] ! (rnd 0 mod 4), [0, 1, 2, 3] ! (rnd 1 mod 4),
                                  [0, 1, 2, 3] ! (rnd 2 mod 4)]\<rparr>,
          index = 0\<rparr> :: Game"
  have i: "Game_init [0, 1, 2, 3] ?m = Inr (?m\<lparr>game := ?g, n_rand := 3\<rparr>)"
    by (simp add: Game_init_def Pattern_init_def generate_ok choice_at_def main_store_def
        numeral_2_eq_2)
  let ?w1 = "?m\<lparr>game := ?g, n_rand := 3\<rparr>"
  have "p_pairs (pattern (game ?w1)) \<noteq> []" "0 \<le> cycle (pattern (game ?w1))"
    "0 \<le> speed (game ?w1)"
    by simp_all
  from start_ok [OF this]
  obtain w where "start ?w1 = Inr w"
    and "game w = (game ?w1)\<lparr>pattern :=
          (pattern (game ?w1))\<lparr>p_pattern := [choice_at ?w1 0, choice_at ?w1 1, choice_at ?w1 2],
                                        new := True\<rparr>\<rparr>"
    and "led_obj w = led_obj ?w1" "pair_obj w = pair_obj ?w1" "button_obj w = button_obj ?w1"
      "gpio_in w = gpio_in ?w1" "n_in w = n_in ?w1" "clock w = clock ?w1" "n_clock w = n_clock ?w1"
      "rand w = rand ?w1"
      "\<forall>port. \<not> gpio_out ?w1 port \<longrightarrow> \<not> gpio_out w port"
    by blast
  then show ?thesis
    using i by (simp add: main_game_def choice_at_def)
qed

definition button_line :: "ref \<Rightarrow> nat" where
  "button_line r = (if r = 0 then 17 else if r = 1 then 16 else if r = 2 then 13 else 12)"

definition led_line :: "ref \<Rightarrow> nat" where
  "led_line r = (if r = 0 then 18 else if r = 1 then 23 else if r = 2 then 19 else 20)"

definition at_table :: "world \<Rightarrow> (nat \<Rightarrow> nat \<Rightarrow> bool) \<Rightarrow> nat \<Rightarrow> Game \<Rightarrow> nat set \<Rightarrow> ref set \<Rightarrow> bool" where
  "at_table w inp n g lit fresh \<longleftrightarrow>
     game w = g \<and> pairs g = [0, 1, 2, 3] \<and> gpio_in w = inp \<and> n_in w = n
     \<and> (\<forall>r. pair_obj w r = \<lparr>button = r, led = r\<rparr>)
     \<and> (\<forall>r. button_port (button_obj w r) = button_line r)
     \<and> (\<forall>r. gpio_port (led_obj w r) = led_line r)
     \<and> (\<forall>port. gpio_out w port = (port \<in> lit))
     \<and> (\<forall>r \<in> fresh. last_time (button_obj w r) = None)"

lemma step_released:
  assumes "at_table w inp n g lit fresh" and "k < 4" and "inp n (button_line k)"
  shows "\<exists>w'. watch_nth (int k) w = Inr w' \<and> at_table w' inp (Suc n) g (lit - {led_line k}) fresh"
proof -
  have k: "k < length (pairs (game w))" "[0, 1, 2, 3] ! k = k"
    using assms(1,2) by (auto simp add: at_table_def nth_Cons' )
  have "gpio_in w (n_in w) (pair_port w k)"
    using assms k by (simp add: at_table_def pair_port_def)
  from watch_nth_released [OF k(1) this] show ?thesis
    using assms(1) k by (auto simp add: at_table_def led_port_def gpio_out_apply_writes)
qed

lemma step_match:
  assumes "at_table w inp n g lit fresh" and "k < 4" and "\<not> inp n (button_line k)"
    and "led_line k \<notin> lit" and "k \<in> fresh"
    and "getitem (p_pattern (pattern g)) (index g) = Inr k"
  shows "\<exists>w'. watch_nth (int k) w = Inr w'
     \<and> at_table w' inp (Suc n) (g\<lparr>index := index g + 1\<rparr>) (lit \<union> {led_line k}) (fresh - {k})"
proof -
  have k: "k < length (pairs (game w))" "[0, 1, 2, 3] ! k = k"
    using assms(1,2) by (auto simp add: at_table_def nth_Cons')
  have a: "\<not> gpio_in w (n_in w) (pair_port w k)"
    using assms k by (simp add: at_table_def pair_port_def)
  have b: "\<not> gpio_out w (led_port w (pairs (game w) ! k))"
    using assms k by (simp add: at_table_def led_port_def)
  have c: "last_time (button_obj w (button (pair_obj w (pairs (game w) ! k)))) = None"
    using assms k by (simp add: at_table_def)
  have d: "getitem (p_pattern (pattern (game w))) (index (game w)) = Inr k"
    using assms by (simp add: at_table_def)
  have e: "button (pair_obj w (pairs (game w) ! k)) = button (pair_obj w k)"
    using assms k by (simp add: at_table_def)
  from watch_nth_match [OF k(1) a b c d e] show ?thesis
    using assms(1) k by (auto simp add: at_table_def led_port_def gpio_out_apply_writes)
qed

lemma step_index_error:
  assumes "at_table w inp n g lit fresh" and "k < 4" and "\<not> inp n (button_line k)"
    and "led_line k \<notin> lit" and "k \<in> fresh"
    and "getitem (p_pattern (pattern g)) (index g) = Inl IndexError"
  shows "watch_nth (int k) w = Inl IndexError"
proof -
  have k: "k < length (pairs (game w))" "[0, 1, 2, 3] ! k = k"
    using assms(1,2) by (auto simp add: at_table_def nth_Cons')
  have a: "\<not> gpio_in w (n_in w) (pair_port w k)"
    using assms k by (simp add: at_table_def pair_port_def)
  have b: "\<not> gpio_out w (led_port w (pairs (game w) ! k))"
    using assms k by (simp add: at_table_def led_port_def)
  have c: "last_time (button_obj w (button (pair_obj w (pairs (game w) ! k)))) = None"
    using assms k by (simp add: at_table_def)
  have d: "getitem (p_pattern (pattern (game w))) (index (game w)) = Inl IndexError"
    using assms by (simp add: at_table_def)
  from watch_nth_index_error [OF k(1) a b c d] show ?thesis .
qed

definition two_at_once :: "nat \<Rightarrow> nat \<Rightarrow> bool" where
  "two_at_once k port = (k \<noteq> 0 \<and> k \<noteq> 5 \<and> k \<noteq> 10 \<and> k \<noteq> 11)"

definition ybg_choices :: "nat \<Rightarrow> nat" where
  "ybg_choices k = k mod 3"

lemma run_watch_only:
  "index (game w) < int (length (p_pattern (pattern (game w)))) \<Longrightarrow>
     run w = and_then (watch_nth 0 w) (\<lambda>w5. and_then (watch_nth 1 w5)
               (\<lambda>w6. and_then (watch_nth 2 w6) (watch_nth 3)))"
  by (simp add: run_def)

lemma main_game_at_table:
  "\<exists>w. main_game two_at_once seconds_clock ybg_choices = Inr w
     \<and> at_table w two_at_once 0 game_ybg {} UNIV"
  using main_game_ok [of two_at_once seconds_clock ybg_choices]
  by (auto simp add: at_table_def game_ybg_def ybg_choices_def button_line_def led_line_def)

lemma getitem_ybg:
  "getitem (p_pattern (pattern (game_ybg\<lparr>index := i\<rparr>))) (index (game_ybg\<lparr>index := i\<rparr>)) =
     (if i = 0 then Inr 0 else if i = 1 then Inr 1 else if i = 2 then Inr 2
      else if i = - 1 then Inr 2 else if i = - 2 then Inr 1 else if i = - 3 then Inr 0
      else Inl IndexError)"
  by (auto simp add: getitem_def game_ybg_def nth_Cons' nat_add_distrib)

text \<open>
  A pass with a wrong press: \<open>game_ybgy\<close> has the pattern yellow, blue, green, yellow, and
  with every button held down the first three calls of \<open>watch_pair\<close> match and the fourth
  finds red where yellow is expected.
\<close>

definition game_ybgy :: Game where
  "game_ybgy = game_ybg\<lparr>pattern := (pattern game_ybg)\<lparr>p_pattern := [0, 1, 2, 0]\<rparr>\<rparr>"

lemma table_at_table:
  "pairs g = [0, 1, 2, 3] \<Longrightarrow> at_table (table inp g) inp 0 g {} UNIV"
  by (simp add: at_table_def table_def main_store_def button_line_def led_line_def)

lemma step_wrong:
  assumes v: "at_table w inp n g lit fresh" and k: "k < 4" and pr: "\<not> inp n (button_line k)"
    and off: "led_line k \<notin> lit" and fr: "k \<in> fresh"
    and e: "getitem (p_pattern (pattern g)) (index g) = Inr e" and ne: "e \<noteq> k"
    and pool: "p_pairs (pattern g) \<noteq> []" and cyc: "0 \<le> cycle (pattern g)"
  shows "wrong_nth k w"
    and "\<exists>w'. watch_nth (int k) w = Inr w' \<and> length (p_pattern (pattern (game w'))) = 3"
proof -
  have kk: "k < length (pairs (game w))" "pairs (game w) ! k = k"
    using v k by (auto simp add: at_table_def nth_Cons')
  have g: "getitem (pairs (game w)) (int k) = Inr k"
    using kk by (simp add: getitem_nat)
  have "wrong_press k w"
    using v k pr off fr e ne
    by (simp add: wrong_press_def at_table_def status_def cooling_fresh lit_0_05_value)
  with g show wn: "wrong_nth k w" by (simp add: wrong_nth_def)
  from watch_nth_wrong [OF wn] g
  have w: "watch_nth (int k) w =
      and_then (reset (after_reads k w)) (\<lambda>w3. Inr (toggle (led (pair_obj w3 k)) ''On'' w3))"
    by auto
  have "p_pairs (pattern (game (after_reads k w))) \<noteq> []"
    "0 \<le> cycle (pattern (game (after_reads k w)))"
    using v pool cyc by (simp_all add: at_table_def)
  from reset_ok [OF this] obtain v' where r: "reset (after_reads k w) = Inr v'"
    and l: "length (p_pattern (pattern (game v'))) = 3"
    by auto
  show "\<exists>w'. watch_nth (int k) w = Inr w' \<and> length (p_pattern (pattern (game w'))) = 3"
    unfolding w r using l by (simp add: toggle_writes)
qed

lemma getitem_ybgy:
  "getitem (p_pattern (pattern (game_ybgy\<lparr>index := i\<rparr>))) (index (game_ybgy\<lparr>index := i\<rparr>)) =
     (if i = 0 then Inr 0 else if i = 1 then Inr 1 else if i = 2 then Inr 2
      else if i = 3 then Inr 0
      else if i = - 1 then Inr 0 else if i = - 2 then Inr 2 else if i = - 3 then Inr 1
      else if i = - 4 then Inr 0 else Inl IndexError)"
  by (auto simp add: getitem_def game_ybgy_def game_ybg_def nth_Cons' nat_add_distrib)

lemma wrong_red_pass:
  "\<exists>w'. run (table all_pressed game_ybgy) = Inr w'
     \<and> length (p_pattern (pattern (game w'))) = 3"
proof -
  let ?W = "table all_pressed game_ybgy"
  have g0: "game_ybgy = game_ybgy\<lparr>index := 0\<rparr>" by (simp add: game_ybgy_def game_ybg_def)
  have v0: "at_table ?W all_pressed 0 (game_ybgy\<lparr>index := 0\<rparr>) {} UNIV"
    using table_at_table [of game_ybgy all_pressed] g0
    by (simp add: game_ybgy_def game_ybg_def)
  obtain a1 where a1: "watch_nth 0 ?W = Inr a1"
    and va1: "at_table a1 all_pressed 1 (game_ybgy\<lparr>index := 1\<rparr>) {18} (UNIV - {0})"
    using step_match [OF v0, of 0] getitem_ybgy [of 0]
    by (auto simp add: all_pressed_def led_line_def)
  obtain a2 where a2: "watch_nth 1 a1 = Inr a2"
    and va2: "at_table a2 all_pressed 2 (game_ybgy\<lparr>index := 2\<rparr>) ({18} \<union> {23}) (UNIV - {0} - {1})"
    using step_match [OF va1, of 1] getitem_ybgy [of 1]
    by (auto simp add: all_pressed_def led_line_def numeral_2_eq_2 [symmetric])
  obtain a3 where a3: "watch_nth 2 a2 = Inr a3"
    and va3: "at_table a3 all_pressed 3 (game_ybgy\<lparr>index := 3\<rparr>) ({18} \<union> {23} \<union> {19})
        (UNIV - {0} - {1} - {2})"
    using step_match [OF va2, of 2] getitem_ybgy [of 2]
    by (auto simp add: all_pressed_def led_line_def numeral_2_eq_2 [symmetric])
  have "p_pairs (pattern (game_ybgy\<lparr>index := 3\<rparr>)) \<noteq> []"
    "0 \<le> cycle (pattern (game_ybgy\<lparr>index := 3\<rparr>))"
    by (simp_all add: game_ybgy_def game_ybg_def)
  from step_wrong(2) [OF va3, of 3 0, OF _ _ _ _ _ _ this] getitem_ybgy [of 3]
  obtain w' where a4: "watch_nth 3 a3 = Inr w'"
    and l: "length (p_pattern (pattern (game w'))) = 3"
    by (auto simp add: all_pressed_def led_line_def)
  have "run ?W = Inr w'"
    using a1 a2 a3 a4 by (simp add: run_watch_only game_ybgy_def game_ybg_def)
  with l show ?thesis by blast
qed

text \<open>
  A play of the main program that wins rounds. Every random choice is yellow
  (\<open>always_yellow\<close>), and the player taps the yellow button on every other pass of the
  loop (\<open>yellow_taps\<close>): of the button reads 0, 1, 2, \<dots> exactly the multiples of 8 find
  the button pressed; a pass makes four reads, the first of them of the yellow button, so
  that yellow is pressed during the passes 0, 2, 4, \<dots> and released during the others.
  \<open>in_play w n m i s lit\<close> describes a world of this play: \<open>n\<close> button reads are done, the
  pattern is \<open>m\<close> times yellow, \<open>index\<close> is \<open>i\<close>, \<open>speed\<close> is \<open>s\<close> and the lines \<open>lit\<close> are
  on; \<open>stamp_ok\<close> says that the yellow button's stamp, if there is one, is the clock's last
  reading, so that the next \<open>cooling()\<close> returns one second. A round on a pattern of
  length \<open>m\<close> takes \<open>2 * m\<close> passes: \<open>m\<close> taps, the \<open>m - 1\<close> passes between them, and the
  pass that completes the round.
\<close>

definition yellow_taps :: "nat \<Rightarrow> nat \<Rightarrow> bool" where
  "yellow_taps k port = (k mod 8 \<noteq> 0)"

definition always_yellow :: "nat \<Rightarrow> nat" where
  "always_yellow k = 0"

definition yellow_game :: "nat \<Rightarrow> int \<Rightarrow> real \<Rightarrow> Game" where
  "yellow_game m i s =
     \<lparr>pairs = [0, 1, 2, 3], speed = s,
      pattern = \<lparr>p_pairs = [0, 1, 2, 3], new = True, cycle = lit_0_06, p_pattern = replicate m 0\<rparr>,
      index = i\<rparr>"

definition stamp_ok :: "world \<Rightarrow> bool" where
  "stamp_ok w \<longleftrightarrow>
     (case last_time (button_obj w 0) of
        None \<Rightarrow> True
      | Some t \<Rightarrow> 0 < n_clock w \<and> t = seconds_clock (n_clock w - 1))"

definition in_play :: "world \<Rightarrow> nat \<Rightarrow> nat \<Rightarrow> int \<Rightarrow> real \<Rightarrow> nat set \<Rightarrow> bool" where
  "in_play w n m i s lit \<longleftrightarrow>
     at_table w yellow_taps n (yellow_game m i s) lit {}
     \<and> rand w = always_yellow \<and> clock w = seconds_clock \<and> stamp_ok w"

lemma round64_one: "round64 1 = 1"
  by (simp add: float_eval)

lemma cooling_tap:
  assumes "clock w = seconds_clock" and "stamp_ok w"
  shows "lit_0_05 < fst (cooling 0 w)" and "stamp_ok (snd (cooling 0 w))"
proof -
  show "lit_0_05 < fst (cooling 0 w)"
  proof (cases "last_time (button_obj w 0)")
    case None
    then show ?thesis by (simp add: cooling_fresh lit_0_05_value)
  next
    case (Some t)
    with assms(2) have n: "0 < n_clock w" and t: "t = seconds_clock (n_clock w - 1)"
      by (simp_all add: stamp_ok_def)
    have t0: "t \<noteq> 0" using t by (simp add: seconds_clock_def)
    have "clock w (n_clock w) - t = 1"
      using n t assms(1) by (simp add: seconds_clock_def of_nat_diff)
    then have "fsub (clock w (n_clock w)) t = 1" by (simp add: fsub_def round64_one)
    then show ?thesis using cooling_stamped [OF Some t0] by (simp add: lit_0_05_value)
  qed
  show "stamp_ok (snd (cooling 0 w))"
  proof (cases "last_time (button_obj w 0)")
    case None
    then show ?thesis using assms(1) by (simp add: cooling_fresh stamp_ok_def)
  next
    case (Some t)
    with assms(2) have t: "t = seconds_clock (n_clock w - 1)" by (simp add: stamp_ok_def)
    have t0: "t \<noteq> 0" using t by (simp add: seconds_clock_def)
    show ?thesis using cooling_stamped [OF Some t0] assms(1) by (simp add: stamp_ok_def)
  qed
qed

lemma stamp_ok_frame:
  "button_obj w' = button_obj w \<Longrightarrow> n_clock w' = n_clock w \<Longrightarrow> stamp_ok w' = stamp_ok w"
  by (simp add: stamp_ok_def split: option.splits)

lemma watch_nth_match_cool:
  assumes "k < length (pairs (game w))"
    and "\<not> gpio_in w (n_in w) (pair_port w k)"
    and "\<not> gpio_out w (led_port w (pairs (game w) ! k))"
    and "lit_0_05 < fst (cooling (button (pair_obj w (pairs (game w) ! k))) w)"
    and "getitem (p_pattern (pattern (game w))) (index (game w)) = Inr expected"
    and "button (pair_obj w (pairs (game w) ! k)) = button (pair_obj w expected)"
  shows "watch_nth (int k) w =
     Inr (apply_writes [(led_port w (pairs (game w) ! k), True)]
            ((after_reads (pairs (game w) ! k) w)\<lparr>game := (game w)\<lparr>index := index (game w) + 1\<rparr>\<rparr>))"
  using assms
  by (simp add: watch_nth_def getitem_nat watch_pair_pressed pair_port_def status_def
      led_port_def toggle_writes)

lemma in_play_facts:
  assumes "in_play w n m i s lit"
  shows "game w = yellow_game m i s" and "pairs (game w) = [0, 1, 2, 3]"
    and "gpio_in w = yellow_taps" and "n_in w = n"
    and "pair_obj w r = \<lparr>button = r, led = r\<rparr>"
    and "button_port (button_obj w r) = button_line r"
    and "gpio_port (led_obj w r) = led_line r"
    and "gpio_out w port = (port \<in> lit)"
    and "rand w = always_yellow" and "clock w = seconds_clock" and "stamp_ok w"
  using assms by (simp_all add: in_play_def at_table_def yellow_game_def)

lemma in_playI:
  assumes "game w = yellow_game m i s" and "gpio_in w = yellow_taps" and "n_in w = n"
    and "\<And>r. pair_obj w r = \<lparr>button = r, led = r\<rparr>"
    and "\<And>r. button_port (button_obj w r) = button_line r"
    and "\<And>r. gpio_port (led_obj w r) = led_line r"
    and "\<And>port. gpio_out w port = (port \<in> lit)"
    and "rand w = always_yellow" and "clock w = seconds_clock" and "stamp_ok w"
  shows "in_play w n m i s lit"
  using assms by (simp add: in_play_def at_table_def yellow_game_def)

lemma nth_pairs: "k < 4 \<Longrightarrow> [0, Suc 0, 2, 3] ! k = k"
  by (auto simp add: nth_Cons')

lemma play_released:
  assumes p: "in_play w n m i s lit" and k: "k < 4" and r: "n mod 8 \<noteq> 0"
  shows "\<exists>w'. watch_nth (int k) w = Inr w' \<and> in_play w' (Suc n) m i s (lit - {led_line k})"
    and "\<not> wrong_nth k w"
proof -
  note f = in_play_facts [OF p]
  have kl: "k < length (pairs (game w))" using f(2) k by simp
  have rel: "gpio_in w (n_in w) (pair_port w k)"
    using f r k by (simp add: pair_port_def yellow_taps_def nth_pairs)
  let ?w' = "apply_writes [(led_port w (pairs (game w) ! k), False)] (w\<lparr>n_in := Suc (n_in w)\<rparr>)"
  have e: "watch_nth (int k) w = Inr ?w'" using kl rel by (rule watch_nth_released)
  have "in_play ?w' (Suc n) m i s (lit - {led_line k})"
    using f k
    by (intro in_playI)
      (auto simp add: led_port_def gpio_out_apply_writes stamp_ok_def nth_pairs
        split: option.splits)
  with e show "\<exists>w'. watch_nth (int k) w = Inr w' \<and> in_play w' (Suc n) m i s (lit - {led_line k})"
    by blast
  show "\<not> wrong_nth k w"
    using rel f k
    by (simp add: wrong_nth_def getitem_nat wrong_press_def pair_port_def nth_pairs)
qed

lemma getitem_replicate:
  "0 \<le> i \<Longrightarrow> i < int m \<Longrightarrow> getitem (replicate m x) i = Inr x"
  by (simp add: getitem_def)

lemma play_tap:
  assumes p: "in_play w n m i s lit" and r: "n mod 8 = 0" and d: "18 \<notin> lit"
    and i: "0 \<le> i" "i < int m"
  shows "\<exists>w'. watch_nth (int 0) w = Inr w' \<and> in_play w' (Suc n) m (i + 1) s (lit \<union> {18})"
    and "\<not> wrong_nth 0 w"
proof -
  note f = in_play_facts [OF p]
  have kl: "0 < length (pairs (game w))" using f(2) by simp
  have pr: "\<not> gpio_in w (n_in w) (pair_port w 0)"
    using f r by (simp add: pair_port_def yellow_taps_def)
  have off: "\<not> gpio_out w (led_port w (pairs (game w) ! 0))"
    using f d by (simp add: led_port_def led_line_def)
  have cool: "lit_0_05 < fst (cooling (button (pair_obj w (pairs (game w) ! 0))) w)"
    using f cooling_tap(1) [of w] by simp
  have g: "getitem (p_pattern (pattern (game w))) (index (game w)) = Inr 0"
    using f(1) i by (simp add: yellow_game_def getitem_replicate)
  have same: "button (pair_obj w (pairs (game w) ! 0)) = button (pair_obj w 0)"
    using f by simp
  let ?w' = "apply_writes [(led_port w (pairs (game w) ! 0), True)]
     ((after_reads (pairs (game w) ! 0) w)\<lparr>game := (game w)\<lparr>index := index (game w) + 1\<rparr>\<rparr>)"
  have e: "watch_nth (int 0) w = Inr ?w'"
    using kl pr off cool g same by (rule watch_nth_match_cool)
  have st: "stamp_ok (after_reads 0 w)"
  proof -
    have "stamp_ok (snd (cooling 0 (w\<lparr>n_in := Suc (n_in w)\<rparr>)))"
      using f(10,11) by (intro cooling_tap(2)) (simp_all add: stamp_ok_def split: option.splits)
    then show ?thesis using f by (simp add: after_reads_def)
  qed
  have "in_play ?w' (Suc n) m (i + 1) s (lit \<union> {18})"
  proof (intro in_playI)
    show "stamp_ok ?w'"
      using st f
      by (simp add: stamp_ok_def after_reads_def cooling_def time_time_def Let_def
          split: option.splits)
  qed (use f in \<open>auto simp add: led_port_def led_line_def gpio_out_apply_writes yellow_game_def
        after_reads_def\<close>)
  with e show "\<exists>w'. watch_nth (int 0) w = Inr w' \<and> in_play w' (Suc n) m (i + 1) s (lit \<union> {18})"
    by blast
  show "\<not> wrong_nth 0 w"
    using f g by (simp add: wrong_nth_def getitem_def wrong_press_def)
qed

lemma branch_idle:
  "in_play w n m i s lit \<Longrightarrow> i < int m \<Longrightarrow> run_branch w = Inr w"
  by (simp add: run_branch_def in_play_def at_table_def yellow_game_def)

lemma branch_won:
  assumes p: "in_play w n m (int m) s lit" and ok: "0 \<le> slower s"
    and l: "lit \<subseteq> {18, 23, 19, 20}"
  shows "\<exists>u. run_branch w = Inr u \<and> in_play u n (Suc m) 0 (slower s) {}"
proof -
  note f = in_play_facts [OF p]
  let ?off = "map (\<lambda>pair. (led_port w pair, False)) (pairs (game w))"
  let ?w1 = "apply_writes ?off w"
  let ?w1' = "?w1\<lparr>game := (game ?w1)\<lparr>speed := fsub (speed (game ?w1)) lit_0_1\<rparr>\<rparr>"
  let ?w2 = "?w1'\<lparr>game := (game ?w1')\<lparr>pattern :=
              (pattern (game ?w1'))\<lparr>p_pattern := p_pattern (pattern (game ?w1')) @ [choice_at ?w1' 0],
                                 new := True\<rparr>\<rparr>,
            n_rand := Suc (n_rand ?w1')\<rparr>"
  have a: "add ?w1' = Inr ?w2"
    using f(1) by (intro add_ok) (simp add: yellow_game_def)
  have c: "choice_at ?w1' 0 = 0"
    using f(1,9) by (simp add: choice_at_def yellow_game_def always_yellow_def)
  have g2: "game ?w2 = yellow_game (Suc m) (int m) (slower s)"
    using f(1) c by (simp add: yellow_game_def slower_def replicate_append_same)
  let ?bl = "concat (map (blink ?w2) (p_pattern (pattern (game ?w2))))"
  let ?w3 = "apply_writes ?bl ?w2"
  have s: "show_pattern ?w2 = Inr ?w3"
    using ok g2 by (intro show_pattern_ok) (simp add: yellow_game_def)
  let ?w4 = "?w3\<lparr>game := (game ?w3)\<lparr>index := 0\<rparr>\<rparr>"
  have r: "run_branch w = Inr ?w4"
    unfolding run_branch_def using f(1) a s
    by (simp add: for_each_toggle_off yellow_game_def)
  have dark1: "\<not> gpio_out ?w1 port" for port
    using f l by (auto simp add: gpio_out_apply_writes led_port_def led_line_def)
  have "\<not> gpio_out ?w2 port" for port
    using dark1 [of port] by (simp add: apply_writes_def)
  moreover have "blinks ?bl" by (rule blinks_concat) auto
  ultimately have dark3: "\<not> gpio_out ?w3 port" for port
    by (intro blinks_leave_off)
  have "in_play ?w4 n (Suc m) 0 (slower s) {}"
  proof (intro in_playI)
    show "game ?w4 = yellow_game (Suc m) 0 (slower s)"
      using g2 by (simp add: yellow_game_def)
    show "gpio_out ?w4 port = (port \<in> {})" for port
      using dark3 [of port] by simp
    show "stamp_ok ?w4"
      using f(11) by (simp add: stamp_ok_def split: option.splits)
  qed (use f in \<open>simp_all\<close>)
  with r show ?thesis by blast
qed

lemma four_released:
  assumes p: "in_play u n m i s lit" and l: "lit \<subseteq> {18}" and r: "n mod 8 = 4"
  shows "\<exists>u1 u2 u3 w'. watch_nth (int 0) u = Inr u1 \<and> watch_nth (int 1) u1 = Inr u2
     \<and> watch_nth (int 2) u2 = Inr u3 \<and> watch_nth (int 3) u3 = Inr w'
     \<and> in_play w' (n + 4) m i s {}
     \<and> \<not> wrong_nth 0 u \<and> \<not> wrong_nth 1 u1 \<and> \<not> wrong_nth 2 u2 \<and> \<not> wrong_nth 3 u3"
proof -
  have e: "lit - {led_line 0} = {}" using l by (auto simp add: led_line_def)
  have r0: "n mod 8 \<noteq> 0" using r by simp
  from play_released [OF p _ r0, of 0] e
  obtain u1 where s0: "watch_nth (int 0) u = Inr u1" "in_play u1 (Suc n) m i s {}"
    "\<not> wrong_nth 0 u"
    by auto
  have r1: "Suc n mod 8 \<noteq> 0" using r by presburger
  from play_released [OF s0(2) _ r1, of 1]
  obtain u2 where s1: "watch_nth (int 1) u1 = Inr u2" "in_play u2 (Suc (Suc n)) m i s {}"
    "\<not> wrong_nth 1 u1"
    by auto
  have r2: "Suc (Suc n) mod 8 \<noteq> 0" using r by presburger
  from play_released [OF s1(2) _ r2, of 2]
  obtain u3 where s2: "watch_nth (int 2) u2 = Inr u3" "in_play u3 (Suc (Suc (Suc n))) m i s {}"
    "\<not> wrong_nth 2 u2"
    by auto
  have r3: "Suc (Suc (Suc n)) mod 8 \<noteq> 0" using r by presburger
  from play_released [OF s2(2) _ r3, of 3]
  obtain w' where s3: "watch_nth (int 3) u3 = Inr w'"
    "in_play w' (Suc (Suc (Suc (Suc n)))) m i s {}" "\<not> wrong_nth 3 u3"
    by auto
  have "Suc (Suc (Suc (Suc n))) = n + 4" by simp
  with s0 s1 s2 s3 show ?thesis by metis
qed

lemma tap_then_released:
  assumes p: "in_play u n m i s {}" and r: "n mod 8 = 0" and i: "0 \<le> i" "i < int m"
  shows "\<exists>u1 u2 u3 w'. watch_nth (int 0) u = Inr u1 \<and> watch_nth (int 1) u1 = Inr u2
     \<and> watch_nth (int 2) u2 = Inr u3 \<and> watch_nth (int 3) u3 = Inr w'
     \<and> in_play w' (n + 4) m (i + 1) s {18}
     \<and> \<not> wrong_nth 0 u \<and> \<not> wrong_nth 1 u1 \<and> \<not> wrong_nth 2 u2 \<and> \<not> wrong_nth 3 u3"
proof -
  have e: "{18} - {led_line 1} = {18::nat}" "{18} - {led_line 2} = {18::nat}"
    "{18} - {led_line 3} = {18::nat}"
    by (auto simp add: led_line_def)
  from play_tap [OF p r _ i]
  obtain u1 where s0: "watch_nth (int 0) u = Inr u1" "in_play u1 (Suc n) m (i + 1) s {18}"
    "\<not> wrong_nth 0 u"
    by auto
  have r1: "Suc n mod 8 \<noteq> 0" using r by presburger
  from play_released [OF s0(2) _ r1, of 1] e
  obtain u2 where s1: "watch_nth (int 1) u1 = Inr u2" "in_play u2 (Suc (Suc n)) m (i + 1) s {18}"
    "\<not> wrong_nth 1 u1"
    by auto
  have r2: "Suc (Suc n) mod 8 \<noteq> 0" using r by presburger
  from play_released [OF s1(2) _ r2, of 2] e
  obtain u3 where s2: "watch_nth (int 2) u2 = Inr u3"
    "in_play u3 (Suc (Suc (Suc n))) m (i + 1) s {18}" "\<not> wrong_nth 2 u2"
    by auto
  have r3: "Suc (Suc (Suc n)) mod 8 \<noteq> 0" using r by presburger
  from play_released [OF s2(2) _ r3, of 3] e
  obtain w' where s3: "watch_nth (int 3) u3 = Inr w'"
    "in_play w' (Suc (Suc (Suc (Suc n)))) m (i + 1) s {18}" "\<not> wrong_nth 3 u3"
    by auto
  have "Suc (Suc (Suc (Suc n))) = n + 4" by simp
  with s0 s1 s2 s3 show ?thesis by metis
qed

lemma press_pass:
  assumes p: "in_play w n m i s {}" and r: "n mod 8 = 0" and i: "0 \<le> i" "i < int m"
  shows "\<exists>w'. plays w 1 w' 0 \<and> in_play w' (n + 4) m (i + 1) s {18}"
proof -
  have b: "run_branch w = Inr w" using p i(2) by (rule branch_idle)
  from tap_then_released [OF p r i]
  obtain u1 u2 u3 w' where s: "watch_nth (int 0) w = Inr u1" "watch_nth (int 1) u1 = Inr u2"
    "watch_nth (int 2) u2 = Inr u3" "watch_nth (int 3) u3 = Inr w'"
    and q: "in_play w' (n + 4) m (i + 1) s {18}"
    and ok: "\<not> wrong_nth 0 w" "\<not> wrong_nth 1 u1" "\<not> wrong_nth 2 u2" "\<not> wrong_nth 3 u3"
    by blast
  note pass = pass_from_parts [OF b s ok]
  have "\<not> round_won w"
    using in_play_facts(1) [OF p] i(2) by (simp add: round_won_def yellow_game_def)
  with plays_one [OF pass] q show ?thesis by auto
qed

lemma release_pass:
  assumes p: "in_play w n m i s lit" and l: "lit \<subseteq> {18}" and r: "n mod 8 = 4"
    and i: "i < int m"
  shows "\<exists>w'. plays w 1 w' 0 \<and> in_play w' (n + 4) m i s {}"
proof -
  have b: "run_branch w = Inr w" using p i by (rule branch_idle)
  from four_released [OF p l r]
  obtain u1 u2 u3 w' where s: "watch_nth (int 0) w = Inr u1" "watch_nth (int 1) u1 = Inr u2"
    "watch_nth (int 2) u2 = Inr u3" "watch_nth (int 3) u3 = Inr w'"
    and q: "in_play w' (n + 4) m i s {}"
    and ok: "\<not> wrong_nth 0 w" "\<not> wrong_nth 1 u1" "\<not> wrong_nth 2 u2" "\<not> wrong_nth 3 u3"
    by blast
  note pass = pass_from_parts [OF b s ok]
  have "\<not> round_won w"
    using in_play_facts(1) [OF p] i by (simp add: round_won_def yellow_game_def)
  with plays_one [OF pass] q show ?thesis by auto
qed

lemma complete_pass:
  assumes p: "in_play w n m (int m) s lit" and l: "lit \<subseteq> {18}" and r: "n mod 8 = 4"
    and ok: "0 \<le> slower s"
  shows "\<exists>w'. plays w 1 w' 1 \<and> in_play w' (n + 4) (Suc m) 0 (slower s) {}"
proof -
  have "lit \<subseteq> {18, 23, 19, 20}" using l by auto
  from branch_won [OF p ok this]
  obtain u0 where b: "run_branch w = Inr u0" and p0: "in_play u0 n (Suc m) 0 (slower s) {}"
    by blast
  have "{} \<subseteq> {18::nat}" by simp
  from four_released [OF p0 this r]
  obtain u1 u2 u3 w' where s: "watch_nth (int 0) u0 = Inr u1" "watch_nth (int 1) u1 = Inr u2"
    "watch_nth (int 2) u2 = Inr u3" "watch_nth (int 3) u3 = Inr w'"
    and q: "in_play w' (n + 4) (Suc m) 0 (slower s) {}"
    and nw: "\<not> wrong_nth 0 u0" "\<not> wrong_nth 1 u1" "\<not> wrong_nth 2 u2" "\<not> wrong_nth 3 u3"
    by blast
  note pass = pass_from_parts [OF b s nw]
  have "round_won w"
    using in_play_facts(1) [OF p] by (simp add: round_won_def yellow_game_def)
  with plays_one [OF pass] q show ?thesis by auto
qed

lemma crash_pass:
  assumes p: "in_play w n m (int m) s lit" and neg: "slower s < 0"
  shows "run w = Inl ValueError"
  using in_play_facts(1) [OF p] neg
  by (intro run_round_raises) (simp_all add: yellow_game_def slower_def)

lemma taps:
  assumes p: "in_play w n m 0 s {}" and r: "n mod 8 = 0"
  shows "j < m \<Longrightarrow>
    \<exists>w'. plays w (2 * j + 1) w' 0 \<and> in_play w' (n + 8 * j + 4) m (int j + 1) s {18}"
proof (induction j)
  case 0
  then have "(0::int) < int m" by simp
  from press_pass [OF p r _ this] show ?case by simp
next
  case (Suc j)
  then obtain w1 where a: "plays w (2 * j + 1) w1 0"
    and p1: "in_play w1 (n + 8 * j + 4) m (int j + 1) s {18}"
    by auto
  have r1: "(n + 8 * j + 4) mod 8 = 4" using r by presburger
  have i1: "int j + 1 < int m" using Suc.prems by simp
  from release_pass [OF p1 _ r1 i1]
  obtain w2 where b: "plays w1 1 w2 0" and p2: "in_play w2 (n + 8 * j + 4 + 4) m (int j + 1) s {}"
    by auto
  have r2: "(n + 8 * j + 4 + 4) mod 8 = 0" using r by presburger
  have "0 \<le> int j + 1" by simp
  from press_pass [OF p2 r2 this i1]
  obtain w3 where c: "plays w2 1 w3 0"
    and p3: "in_play w3 (n + 8 * j + 4 + 4 + 4) m (int j + 1 + 1) s {18}"
    by auto
  from plays_add [OF plays_add [OF a b] c] have "plays w (2 * Suc j + 1) w3 0" by simp
  moreover have "n + 8 * j + 4 + 4 + 4 = n + 8 * Suc j + 4" "int j + 1 + 1 = int (Suc j) + 1"
    by simp_all
  ultimately show ?case using p3 by auto
qed

lemma round_played:
  assumes p: "in_play w n m 0 s {}" and r: "n mod 8 = 0" and m: "0 < m" and ok: "0 \<le> slower s"
  shows "\<exists>w'. plays w (2 * m) w' 1 \<and> in_play w' (n + 8 * m) (Suc m) 0 (slower s) {}"
proof -
  obtain j where j: "m = Suc j" using m by (cases m) auto
  then have "j < m" by simp
  from taps [OF p r this]
  obtain w1 where a: "plays w (2 * j + 1) w1 0"
    and p0: "in_play w1 (n + 8 * j + 4) m (int j + 1) s {18}"
    by blast
  have "int j + 1 = int m" using j by simp
  with p0 have p1: "in_play w1 (n + 8 * j + 4) m (int m) s {18}" by simp
  have r1: "(n + 8 * j + 4) mod 8 = 4" using r by presburger
  from complete_pass [OF p1 _ r1 ok]
  obtain w2 where b: "plays w1 1 w2 1"
    and p2: "in_play w2 (n + 8 * j + 4 + 4) (Suc m) 0 (slower s) {}"
    by auto
  from plays_add [OF a b] have c: "plays w (2 * m) w2 1" using j by simp
  have e: "n + 8 * j + 4 + 4 = n + 8 * m" using j by simp
  from p2 have "in_play w2 (n + 8 * m) (Suc m) 0 (slower s) {}" by (simp only: e)
  with c show ?thesis by blast
qed

lemma rounds_played:
  assumes p: "in_play w 0 3 0 1 {}"
  shows "r \<le> 10 \<Longrightarrow>
    \<exists>w'. plays w (r * r + 5 * r) w' r
      \<and> in_play w' (4 * (r * r + 5 * r)) (3 + r) 0 ((slower ^^ r) 1) {}"
proof (induction r)
  case 0
  show ?case using p plays_zero [of w] by auto
next
  case (Suc r)
  then obtain w1 where a: "plays w (r * r + 5 * r) w1 r"
    and p1: "in_play w1 (4 * (r * r + 5 * r)) (3 + r) 0 ((slower ^^ r) 1) {}"
    by auto
  have r1: "(4 * (r * r + 5 * r)) mod 8 = 0"
  proof -
    have "even (r * r + 5 * r)" by simp
    then obtain k where "r * r + 5 * r = 2 * k" by (elim evenE)
    then show ?thesis by simp
  qed
  have ok: "0 \<le> slower ((slower ^^ r) 1)"
    using slower_upto_ten [of "Suc r"] Suc.prems by simp
  from round_played [OF p1 r1 _ ok]
  obtain w2 where b: "plays w1 (2 * (3 + r)) w2 1"
    and p2: "in_play w2 (4 * (r * r + 5 * r) + 8 * (3 + r)) (Suc (3 + r)) 0
        (slower ((slower ^^ r) 1)) {}"
    by auto
  have e: "r * r + 5 * r + 2 * (3 + r) = Suc r * Suc r + 5 * Suc r"
    "4 * (r * r + 5 * r) + 8 * (3 + r) = 4 * (Suc r * Suc r + 5 * Suc r)"
    by simp_all
  from plays_add [OF a b] have "plays w (r * r + 5 * r + 2 * (3 + r)) w2 (r + 1)" .
  then have c: "plays w (Suc r * Suc r + 5 * Suc r) w2 (Suc r)"
    unfolding e(1) by simp
  have e3: "Suc (3 + r) = 3 + Suc r" "slower ((slower ^^ r) 1) = (slower ^^ Suc r) 1"
    by simp_all
  from p2 have "in_play w2 (4 * (Suc r * Suc r + 5 * Suc r)) (3 + Suc r) 0 ((slower ^^ Suc r) 1) {}"
    by (simp only: e(2) e3)
  with c show ?case by blast
qed

lemma main_game_in_play:
  "\<exists>w. main_game yellow_taps seconds_clock always_yellow = Inr w \<and> in_play w 0 3 0 1 {}"
  using main_game_ok [of yellow_taps seconds_clock always_yellow]
  by (auto simp add: in_play_def at_table_def yellow_game_def always_yellow_def button_line_def
      led_line_def stamp_ok_def numeral_3_eq_3)

lemma ten_rounds_play:
  "\<exists>w0 w. main_game yellow_taps seconds_clock always_yellow = Inr w0
     \<and> in_play w0 0 3 0 1 {} \<and> plays w0 150 w 10
     \<and> in_play w 600 13 0 (5 / 36028797018963968) {}"
proof -
  from main_game_in_play obtain w0
    where m: "main_game yellow_taps seconds_clock always_yellow = Inr w0"
      and p: "in_play w0 0 3 0 1 {}"
    by blast
  from rounds_played [OF p, of 10] obtain w where "plays w0 (10 * 10 + 5 * 10) w 10"
    and "in_play w (4 * (10 * 10 + 5 * 10)) (3 + 10) 0 ((slower ^^ 10) 1) {}"
    by auto
  then have "plays w0 150 w 10" "in_play w 600 13 0 (5 / 36028797018963968) {}"
    by (simp_all add: slower_ten)
  with m p show ?thesis by blast
qed

lemma eleventh_round_play:
  "\<exists>w0 w. main_game yellow_taps seconds_clock always_yellow = Inr w0
     \<and> plays w0 175 w 10 \<and> in_play w 700 13 13 (5 / 36028797018963968) {18}"
proof -
  from ten_rounds_play obtain w0 w1
    where m: "main_game yellow_taps seconds_clock always_yellow = Inr w0"
      and a: "plays w0 150 w1 10" and p: "in_play w1 600 13 0 (5 / 36028797018963968) {}"
    by blast
  have "(600::nat) mod 8 = 0" "(12::nat) < 13" by simp_all
  from taps [OF p this] obtain w
    where b: "plays w1 (2 * 12 + 1) w 0"
      and q: "in_play w (600 + 8 * 12 + 4) 13 (int 12 + 1) (5 / 36028797018963968) {18}"
    by blast
  from plays_add [OF a b] have "plays w0 175 w 10" by simp
  moreover from q have "in_play w 700 13 13 (5 / 36028797018963968) {18}" by simp
  ultimately show ?thesis using m by blast
qed

lemma session_main:
  "session [0, 1, 2, 3] (main_store inp clk rnd) n = and_then (main_game inp clk rnd) (ticks n)"
  by (simp add: session_def main_game_def and_then_def split: sum.splits)

section \<open>The claims\<close>

text \<open>
  C3 (match advances index). When \<open>watch_pair\<close> is invoked on the pair expected at position
  \<open>index\<close> of the pattern, its button reads pressed, its LED reads \<open>Off\<close> and its
  \<open>cooling()\<close> reading exceeds \<open>0.05\<close>, the call returns, \<open>index\<close> is one larger and no
  other field of the game object (pairs, speed, pattern) has changed. (The call also
  lights the pair's LED and renews the button's stamp; these are not fields of the game.)
\<close>

theorem watch_pair_match_advances:
  assumes "getitem (p_pattern (pattern (game w))) (index (game w)) = Inr pair"
    and "\<not> gpio_in w (n_in w) (button_port (button_obj w (button (pair_obj w pair))))"
    and "status (led (pair_obj w pair)) w = ''Off''"
    and "lit_0_05 < fst (cooling (button (pair_obj w pair)) w)"
  shows "\<exists>w'. watch_pair pair w = Inr w' \<and> game w' = (game w)\<lparr>index := index (game w) + 1\<rparr>"
  using assms by (simp add: watch_pair_pressed toggle_writes)

theorem watch_pair_match_advances_witness:
  "getitem (p_pattern (pattern (game (table all_pressed game_ybg))))
      (index (game (table all_pressed game_ybg))) = Inr 0
   \<and> \<not> gpio_in (table all_pressed game_ybg) (n_in (table all_pressed game_ybg))
         (button_port (button_obj (table all_pressed game_ybg)
            (button (pair_obj (table all_pressed game_ybg) 0))))
   \<and> status (led (pair_obj (table all_pressed game_ybg) 0)) (table all_pressed game_ybg) = ''Off''
   \<and> lit_0_05 < fst (cooling (button (pair_obj (table all_pressed game_ybg) 0)) (table all_pressed game_ybg))
   \<and> (\<exists>w'. watch_pair 0 (table all_pressed game_ybg) = Inr w' \<and> game w' = game_ybg\<lparr>index := 1\<rparr>)"
proof -
  have a: "getitem (p_pattern (pattern (game (table all_pressed game_ybg))))
      (index (game (table all_pressed game_ybg))) = Inr 0"
    by (simp add: game_ybg_def getitem_def)
  have b: "\<not> gpio_in (table all_pressed game_ybg) (n_in (table all_pressed game_ybg))
         (button_port (button_obj (table all_pressed game_ybg)
            (button (pair_obj (table all_pressed game_ybg) 0))))"
    by (simp add: all_pressed_def)
  have c: "status (led (pair_obj (table all_pressed game_ybg) 0)) (table all_pressed game_ybg) = ''Off''"
    by (simp add: status_def)
  have d: "lit_0_05 < fst (cooling (button (pair_obj (table all_pressed game_ybg) 0)) (table all_pressed game_ybg))"
    by (simp add: cooling_fresh lit_0_05_value)
  show ?thesis
    using a b c d watch_pair_match_advances [OF a b c d] by (simp add: game_ybg_def)
qed

text \<open>
  C8 (prefix preservation). For every pattern with a pool that is not empty (no other
  pattern can be constructed), \<open>add()\<close> returns and the new sequence is the old one with
  exactly one element of the pool appended, so the old sequence is its prefix of the
  old length.
\<close>

theorem add_appends_one:
  assumes "p_pairs (pattern (game w)) \<noteq> []"
  shows "\<exists>w' x. add w = Inr w' \<and> x \<in> set (p_pairs (pattern (game w)))
           \<and> p_pattern (pattern (game w')) = p_pattern (pattern (game w)) @ [x]
           \<and> take (length (p_pattern (pattern (game w)))) (p_pattern (pattern (game w')))
               = p_pattern (pattern (game w))"
  using assms choice_at_in_pool [OF assms, of 0] by (simp add: add_ok)

theorem add_appends_one_witness:
  "p_pairs (pattern (game (table all_released game_ybg))) \<noteq> []
   \<and> (\<exists>w' x. add (table all_released game_ybg) = Inr w' \<and> x \<in> set [0, 1, 2, 3]
           \<and> p_pattern (pattern (game w')) = [0, 1, 2] @ [x]
           \<and> take 3 (p_pattern (pattern (game w'))) = [0, 1, 2])"
  using add_appends_one [of "table all_released game_ybg"]
  by (simp add: game_ybg_def numeral_3_eq_3)

text \<open>
  C2 (mismatch triggers reset), as stated: invoked on a pair that is not the expected
  pair, with the guards met, \<open>watch_pair\<close> leaves \<open>index = 0\<close>. It fails for two distinct
  pairs that hold the same button: the code compares the buttons, finds them identical
  and advances \<open>index\<close>.
\<close>

theorem watch_pair_other_pair_counterexample:
  "getitem (p_pattern (pattern (game (shared_button game_ybg))))
      (index (game (shared_button game_ybg))) = Inr 0
   \<and> (1 :: ref) \<noteq> 0
   \<and> \<not> gpio_in (shared_button game_ybg) (n_in (shared_button game_ybg))
         (button_port (button_obj (shared_button game_ybg)
            (button (pair_obj (shared_button game_ybg) 1))))
   \<and> status (led (pair_obj (shared_button game_ybg) 1)) (shared_button game_ybg) = ''Off''
   \<and> lit_0_05 < fst (cooling (button (pair_obj (shared_button game_ybg) 1)) (shared_button game_ybg))
   \<and> (\<exists>w'. watch_pair 1 (shared_button game_ybg) = Inr w' \<and> index (game w') = 1
         \<and> index (game w') \<noteq> 0 \<and> length (p_pattern (pattern (game w'))) = 3)"
  by (simp add: watch_pair_pressed toggle_writes status_def cooling_fresh lit_0_05_value
      all_pressed_def, simp add: game_ybg_def getitem_def)

text \<open>
  C2, amended: when \<open>watch_pair\<close> is invoked on a pair whose button is not the button of
  the pair expected at position \<open>index\<close>, its button reads pressed, its LED reads \<open>Off\<close>
  and its \<open>cooling()\<close> reading exceeds \<open>0.05\<close>, in a game whose pool is not empty and
  whose cycle time is not negative, the call returns with \<open>index = 0\<close>, \<open>speed = 1.00\<close>
  and a pattern of length 3.
\<close>

theorem watch_pair_mismatch_resets:
  assumes "getitem (p_pattern (pattern (game w))) (index (game w)) = Inr expected"
    and "button (pair_obj w pair) \<noteq> button (pair_obj w expected)"
    and "\<not> gpio_in w (n_in w) (button_port (button_obj w (button (pair_obj w pair))))"
    and "status (led (pair_obj w pair)) w = ''Off''"
    and "lit_0_05 < fst (cooling (button (pair_obj w pair)) w)"
    and "p_pairs (pattern (game w)) \<noteq> []"
    and "0 \<le> cycle (pattern (game w))"
  shows "\<exists>w'. watch_pair pair w = Inr w' \<and> index (game w') = 0 \<and> speed (game w') = 1
           \<and> length (p_pattern (pattern (game w'))) = 3"
proof -
  obtain w1 where r: "reset (after_reads pair w) = Inr w1"
    and g: "game w1 = (game (after_reads pair w))\<lparr>index := 0, speed := 1,
          pattern := (pattern (game (after_reads pair w)))\<lparr>p_pattern :=
             [choice_at (after_reads pair w) 0, choice_at (after_reads pair w) 1,
              choice_at (after_reads pair w) 2], new := True\<rparr>\<rparr>"
    using reset_ok [of "after_reads pair w"] assms(6,7) by auto
  show ?thesis
    using assms(1-5) r g by (simp add: watch_pair_pressed toggle_writes)
qed

theorem watch_pair_mismatch_resets_witness:
  "(\<exists>w'. watch_pair 3 (table all_pressed game_ybg) = Inr w' \<and> index (game w') = 0
       \<and> speed (game w') = 1 \<and> length (p_pattern (pattern (game w'))) = 3)"
proof -
  let ?w = "table all_pressed game_ybg"
  have a: "getitem (p_pattern (pattern (game ?w))) (index (game ?w)) = Inr 0"
    by (simp add: game_ybg_def getitem_def)
  have b: "button (pair_obj ?w 3) \<noteq> button (pair_obj ?w 0)" by simp
  have c: "\<not> gpio_in ?w (n_in ?w) (button_port (button_obj ?w (button (pair_obj ?w 3))))"
    by (simp add: all_pressed_def)
  have d: "status (led (pair_obj ?w 3)) ?w = ''Off''" by (simp add: status_def)
  have e: "lit_0_05 < fst (cooling (button (pair_obj ?w 3)) ?w)"
    by (simp add: cooling_fresh lit_0_05_value)
  have f: "p_pairs (pattern (game ?w)) \<noteq> []" by (simp add: game_ybg_def)
  have g: "0 \<le> cycle (pattern (game ?w))" by (simp add: game_ybg_def)
  show ?thesis by (rule watch_pair_mismatch_resets [OF a b c d e f g])
qed

text \<open>
  C5 (matching by identity), as stated: \<open>index\<close> advances only for the very \<open>Pair\<close> object
  at \<open>pattern[index]\<close>. It fails for a distinct \<open>Pair\<close> object with the same button: here
  the yellow pair is pressed while the blue pair, which holds the yellow button, is expected.
\<close>

theorem watch_pair_pair_identity_counterexample:
  "getitem (p_pattern (pattern (game (shared_button (game_ybg\<lparr>index := 1\<rparr>)))))
      (index (game (shared_button (game_ybg\<lparr>index := 1\<rparr>)))) = Inr 1
   \<and> (0 :: ref) \<noteq> 1
   \<and> \<not> gpio_in (shared_button (game_ybg\<lparr>index := 1\<rparr>)) (n_in (shared_button (game_ybg\<lparr>index := 1\<rparr>)))
         (button_port (button_obj (shared_button (game_ybg\<lparr>index := 1\<rparr>))
            (button (pair_obj (shared_button (game_ybg\<lparr>index := 1\<rparr>)) 0))))
   \<and> status (led (pair_obj (shared_button (game_ybg\<lparr>index := 1\<rparr>)) 0))
         (shared_button (game_ybg\<lparr>index := 1\<rparr>)) = ''Off''
   \<and> lit_0_05 < fst (cooling (button (pair_obj (shared_button (game_ybg\<lparr>index := 1\<rparr>)) 0))
         (shared_button (game_ybg\<lparr>index := 1\<rparr>)))
   \<and> (\<exists>w'. watch_pair 0 (shared_button (game_ybg\<lparr>index := 1\<rparr>)) = Inr w'
         \<and> game w' = game_ybg\<lparr>index := 2\<rparr>)"
  by (simp add: watch_pair_pressed toggle_writes status_def cooling_fresh lit_0_05_value
      all_pressed_def, simp add: game_ybg_def getitem_def)

text \<open>
  C5, amended: matching is by identity of the \<open>Button\<close> object. With the guards met,
  \<open>watch_pair\<close> advances \<open>index\<close> (and changes nothing else of the game) when the invoked
  pair's button is the button of \<open>pattern[index]\<close>, and otherwise runs \<open>reset()\<close> and then
  lights the LED; no port, colour or LED enters the comparison. Where distinct pairs
  hold distinct buttons, as in the main program, this is identity of the pairs.
\<close>

theorem watch_pair_button_identity:
  assumes "getitem (p_pattern (pattern (game w))) (index (game w)) = Inr expected"
    and "\<not> gpio_in w (n_in w) (button_port (button_obj w (button (pair_obj w pair))))"
    and "status (led (pair_obj w pair)) w = ''Off''"
    and "lit_0_05 < fst (cooling (button (pair_obj w pair)) w)"
  shows "(button (pair_obj w pair) = button (pair_obj w expected) \<longrightarrow>
            (\<exists>w'. watch_pair pair w = Inr w' \<and> game w' = (game w)\<lparr>index := index (game w) + 1\<rparr>))
       \<and> (button (pair_obj w pair) \<noteq> button (pair_obj w expected) \<longrightarrow>
            watch_pair pair w =
              and_then (reset (after_reads pair w))
                (\<lambda>w3. Inr (toggle (led (pair_obj w3 pair)) ''On'' w3)))
       \<and> ((\<forall>p q. button (pair_obj w p) = button (pair_obj w q) \<longrightarrow> p = q) \<longrightarrow>
            (button (pair_obj w pair) = button (pair_obj w expected)) = (pair = expected))"
  using assms by (auto simp add: watch_pair_pressed toggle_writes)

theorem watch_pair_button_identity_witness:
  "(\<exists>w'. watch_pair 0 (table all_pressed game_ybg) = Inr w' \<and> game w' = game_ybg\<lparr>index := 1\<rparr>)
   \<and> watch_pair 3 (table all_pressed game_ybg) =
        and_then (reset (after_reads 3 (table all_pressed game_ybg)))
          (\<lambda>w3. Inr (toggle (led (pair_obj w3 3)) ''On'' w3))"
proof -
  let ?w = "table all_pressed game_ybg"
  have a: "getitem (p_pattern (pattern (game ?w))) (index (game ?w)) = Inr 0"
    by (simp add: game_ybg_def getitem_def)
  have c: "\<not> gpio_in ?w (n_in ?w) (button_port (button_obj ?w (button (pair_obj ?w p))))" for p
    by (simp add: all_pressed_def)
  have d: "status (led (pair_obj ?w p)) ?w = ''Off''" for p by (simp add: status_def)
  have e: "lit_0_05 < fst (cooling (button (pair_obj ?w p)) ?w)" for p
    by (simp add: cooling_fresh lit_0_05_value)
  show ?thesis
    using watch_pair_button_identity [OF a c d e, of 0] watch_pair_button_identity [OF a c d e, of 3]
    by (simp add: game_ybg_def)
qed

text \<open>
  C1 (round completion) at the failing input: the main program, every element of every
  pattern yellow, the player repeating each pattern with one tap of the yellow button
  every other pass of the loop. Ten rounds are completed in the first 150 passes. After
  175 passes the thirteen elements of the eleventh pattern are repeated: \<open>index\<close> equals
  the length 13 of the pattern, the speed is \<open>5 / 2\<^sup>5\<^sup>5\<close>, and the next four reads find
  the four buttons released. The next call of \<open>run()\<close> lowers the speed below 0, and
  \<open>show_pattern\<close> calls \<open>time.sleep\<close> with it: \<open>ValueError\<close>, before \<open>index\<close> is set to 0.
  Nothing catches it, so the program ends in pass 176.
\<close>

theorem value_error_in_eleventh_round:
  "(\<exists>w. and_then (main_game yellow_taps seconds_clock always_yellow) (ticks 175) = Inr w
       \<and> length (p_pattern (pattern (game w))) = 13
       \<and> index (game w) = int (length (p_pattern (pattern (game w))))
       \<and> speed (game w) = 5 / 36028797018963968
       \<and> gpio_in w (n_in w) 17 \<and> gpio_in w (n_in w + 1) 16
       \<and> gpio_in w (n_in w + 2) 13 \<and> gpio_in w (n_in w + 3) 12
       \<and> run w = Inl ValueError)
   \<and> and_then (main_game yellow_taps seconds_clock always_yellow) (ticks 176) = Inl ValueError"
proof -
  from eleventh_round_play obtain w0 w
    where m: "main_game yellow_taps seconds_clock always_yellow = Inr w0"
      and a: "plays w0 175 w 10"
      and p: "in_play w 700 13 13 (5 / 36028797018963968) {18}"
    by blast
  from a have t: "ticks 175 w0 = Inr w" by (simp add: plays_def)
  have "slower (5 / 36028797018963968) < 0" by (simp add: slower_values)
  with p have r: "run w = Inl ValueError" by (intro crash_pass [where m = 13]) simp_all
  have "ticks (175 + 1) w0 = Inl ValueError"
    unfolding ticks_add t using r by simp
  then have t': "ticks 176 w0 = Inl ValueError" by simp
  note f = in_play_facts [OF p]
  have "length (p_pattern (pattern (game w))) = 13" "index (game w) = 13"
    "speed (game w) = 5 / 36028797018963968"
    using f(1) by (simp_all add: yellow_game_def)
  moreover have "gpio_in w (n_in w) 17" "gpio_in w (n_in w + 1) 16"
    "gpio_in w (n_in w + 2) 13" "gpio_in w (n_in w + 3) 12"
    using f(3,4) by (simp_all add: yellow_taps_def)
  ultimately show ?thesis using m t t' r by simp
qed

text \<open>
  C9 (speed), as stated: after \<open>n\<close> successful rounds the speed is \<open>1.00 - n * 0.10\<close>, and
  after ten of them it is at most 0. In the play of the main program above the first 150
  passes of the loop return, meet no wrong press and complete ten rounds; the speed is 1
  before them and after them it is neither at most 0 nor \<open>1 - 10 * 0.1\<close> (it is
  \<open>5 / 2\<^sup>5\<^sup>5\<close>, about \<open>1.39e-16\<close>: ten float subtractions of \<open>0.1\<close> from \<open>1.0\<close>).
\<close>

theorem speed_positive_after_ten_rounds_counterexample:
  "\<exists>w0 w. main_game yellow_taps seconds_clock always_yellow = Inr w0 \<and> speed (game w0) = 1
     \<and> ticks 150 w0 = Inr w \<and> mistake_free 150 w0 \<and> wins 150 w0 = 10
     \<and> \<not> speed (game w) \<le> 0 \<and> speed (game w) \<noteq> 1 - 10 * (1 / 10)"
proof -
  from ten_rounds_play obtain w0 w
    where m: "main_game yellow_taps seconds_clock always_yellow = Inr w0"
      and p0: "in_play w0 0 3 0 1 {}" and a: "plays w0 150 w 10"
      and p: "in_play w 600 13 0 (5 / 36028797018963968) {}"
    by blast
  have "speed (game w0) = 1" using in_play_facts(1) [OF p0] by (simp add: yellow_game_def)
  moreover have "speed (game w) = 5 / 36028797018963968"
    using in_play_facts(1) [OF p] by (simp add: yellow_game_def)
  ultimately show ?thesis using m a by (auto simp add: plays_def)
qed

text \<open>
  C9, amended. \<open>Game(pairs)\<close> sets the speed to \<open>1.00\<close> and \<open>start()\<close> leaves it as it is.
  A pass of the loop that returns and meets no wrong press (no call of \<open>reset()\<close>)
  leaves the speed as it is when it starts with \<open>index\<close> below the pattern's length, and
  replaces it by the float difference of the speed and \<open>0.1\<close> when it starts with
  \<open>index\<close> at the pattern's length (a successful round), whatever the speed, with no
  lower bound. So after \<open>n\<close> passes that return and meet no wrong press, the speed is the
  \<open>k\<close>-fold float subtraction of \<open>0.1\<close> from the speed before them, \<open>k\<close> being the number
  of those passes that complete a round. In a session (\<open>Game(pairs)\<close>, \<open>start()\<close>, then
  such passes) that has completed ten rounds the speed is \<open>5 / 2\<^sup>5\<^sup>5\<close>: greater than 0,
  and its float difference with \<open>0.1\<close> is negative. For \<open>k\<close> up to 10 the \<open>k\<close>-fold
  subtraction from \<open>1.00\<close> is not negative.
\<close>

theorem speed_after_successful_rounds:
  "(\<forall>prs w0 w1. Game_init prs w0 = Inr w1 \<longrightarrow> speed (game w1) = 1)
   \<and> (\<forall>w w'. start w = Inr w' \<longrightarrow> speed (game w') = speed (game w))
   \<and> (\<forall>w w'. run w = Inr w' \<and> \<not> mistake_in_pass w \<longrightarrow>
         speed (game w') = (if round_won w then fsub (speed (game w)) lit_0_1 else speed (game w)))
   \<and> (\<forall>n w w'. ticks n w = Inr w' \<and> mistake_free n w \<longrightarrow>
         speed (game w') = (slower ^^ wins n w) (speed (game w)))
   \<and> (\<forall>prs w0 w2 n w'. and_then (Game_init prs w0) start = Inr w2 \<and> ticks n w2 = Inr w'
           \<and> mistake_free n w2 \<and> wins n w2 = 10 \<longrightarrow>
         speed (game w') = 5 / 36028797018963968 \<and> 0 < speed (game w')
         \<and> fsub (speed (game w')) lit_0_1 < 0)
   \<and> (\<forall>k\<le>10. 0 \<le> (slower ^^ k) 1)"
proof (intro conjI allI impI)
  fix prs w0 w1
  assume "Game_init prs w0 = Inr w1"
  then show "speed (game w1) = 1" by (rule Game_init_speed)
next
  fix w w'
  assume "start w = Inr w'"
  then show "speed (game w') = speed (game w)" by (rule start_speed)
next
  fix w w'
  assume "run w = Inr w' \<and> \<not> mistake_in_pass w"
  then show "speed (game w') =
      (if round_won w then fsub (speed (game w)) lit_0_1 else speed (game w))"
    using quiet_pass(1) by blast
next
  fix n w w'
  assume "ticks n w = Inr w' \<and> mistake_free n w"
  then show "speed (game w') = (slower ^^ wins n w) (speed (game w))"
    using speed_after_ticks by blast
next
  fix prs w0 w2 n w'
  assume a: "and_then (Game_init prs w0) start = Inr w2 \<and> ticks n w2 = Inr w'
           \<and> mistake_free n w2 \<and> wins n w2 = 10"
  then obtain w1 where i: "Game_init prs w0 = Inr w1" and s: "start w1 = Inr w2"
    by (auto simp add: and_then_def split: sum.splits)
  from Game_init_speed [OF i] start_speed [OF s] have one: "speed (game w2) = 1" by simp
  from a have "speed (game w') = (slower ^^ wins n w2) (speed (game w2))"
    using speed_after_ticks by blast
  with a one have sp: "speed (game w') = 5 / 36028797018963968" by (simp add: slower_ten)
  have "slower (5 / 36028797018963968) < 0" by (simp add: slower_values)
  then have neg: "fsub (speed (game w')) lit_0_1 < 0" unfolding sp slower_def .
  have "0 < speed (game w')" unfolding sp by simp
  with sp neg
  show "speed (game w') = 5 / 36028797018963968"
    "0 < speed (game w')" "fsub (speed (game w')) lit_0_1 < 0"
    by simp_all
next
  fix k :: nat
  assume "k \<le> 10"
  then show "0 \<le> (slower ^^ k) 1" by (rule slower_upto_ten)
qed

theorem speed_after_successful_rounds_witness:
  "\<exists>w0 w. and_then (Game_init [0, 1, 2, 3] (main_store yellow_taps seconds_clock always_yellow))
              start = Inr w0
     \<and> ticks 150 w0 = Inr w \<and> mistake_free 150 w0 \<and> wins 150 w0 = 10
     \<and> speed (game w) = 5 / 36028797018963968 \<and> 0 < speed (game w)
     \<and> fsub (speed (game w)) lit_0_1 < 0"
proof -
  from ten_rounds_play obtain w0 w
    where m: "main_game yellow_taps seconds_clock always_yellow = Inr w0"
      and a: "plays w0 150 w 10"
    by blast
  from m have i: "and_then (Game_init [0, 1, 2, 3]
      (main_store yellow_taps seconds_clock always_yellow)) start = Inr w0"
    by (simp add: main_game_def)
  from a have t: "ticks 150 w0 = Inr w" "mistake_free 150 w0" "wins 150 w0 = 10"
    by (simp_all add: plays_def)
  from speed_after_successful_rounds i t
  have "speed (game w) = 5 / 36028797018963968 \<and> 0 < speed (game w)
     \<and> fsub (speed (game w)) lit_0_1 < 0"
    by blast
  with i t show ?thesis by blast
qed

text \<open>
  C10 (attract animation). With a cycle time that is not negative (it is \<open>0.06\<close>),
  \<open>cycle_forward\<close> returns having written, for the pool indices \<open>1, \<dots>, n - 1\<close> in ascending
  order, on then off to the LED of that pair; \<open>cycle_backward\<close> does the same for the
  indices \<open>n - 2, \<dots>, 0\<close> in descending order; and \<open>cycle_lights\<close> writes the forward sweep
  followed by the backward sweep exactly ten times. None changes the game.
\<close>

theorem attract_animation:
  assumes "0 \<le> cycle (pattern (game w))"
  shows "(\<exists>w'. cycle_forward w = Inr w' \<and> game w' = game w
           \<and> gpio_log w' = gpio_log w @
                concat (map (\<lambda>i. [(led_port w (p_pairs (pattern (game w)) ! i), True),
                                  (led_port w (p_pairs (pattern (game w)) ! i), False)])
                  [1 ..< length (p_pairs (pattern (game w)))]))
       \<and> (\<exists>w'. cycle_backward w = Inr w' \<and> game w' = game w
           \<and> gpio_log w' = gpio_log w @
                concat (map (\<lambda>i. [(led_port w (p_pairs (pattern (game w)) ! i), True),
                                  (led_port w (p_pairs (pattern (game w)) ! i), False)])
                  (rev [0 ..< length (p_pairs (pattern (game w))) - 1])))
       \<and> (\<exists>w'. cycle_lights w = Inr w' \<and> game w' = game w
           \<and> gpio_log w' = gpio_log w @
                concat (replicate 10 (forward_writes w @ backward_writes w)))"
  using assms
  by (simp add: cycle_forward_ok cycle_backward_ok cycle_lights_ok forward_writes_def
      backward_writes_def blink_def)

theorem attract_animation_witness:
  "(\<exists>w'. cycle_forward (table all_released game_ybg) = Inr w'
       \<and> gpio_log w' = [(23, True), (23, False), (19, True), (19, False), (20, True), (20, False)])
   \<and> (\<exists>w'. cycle_backward (table all_released game_ybg) = Inr w'
       \<and> gpio_log w' = [(19, True), (19, False), (23, True), (23, False), (18, True), (18, False)])
   \<and> (\<exists>w'. cycle_lights (table all_released game_ybg) = Inr w'
       \<and> length (gpio_log w') = 120)"
proof -
  let ?w = "table all_released game_ybg"
  have a: "0 \<le> cycle (pattern (game ?w))" by (simp add: game_ybg_def)
  have f: "forward_writes ?w =
      [(23, True), (23, False), (19, True), (19, False), (20, True), (20, False)]"
    by (simp add: forward_writes_def blink_def game_ybg_def upt_rec)
  have b: "backward_writes ?w =
      [(19, True), (19, False), (23, True), (23, False), (18, True), (18, False)]"
    by (simp add: backward_writes_def blink_def game_ybg_def upt_rec)
  have l: "length (concat (replicate 10 (forward_writes ?w @ backward_writes ?w))) = 120"
    unfolding f b by (simp add: eval_nat_numeral)
  show ?thesis
    using attract_animation [OF a] f b l
    by (simp add: forward_writes_def backward_writes_def blink_def) metis
qed

text \<open>
  C6 (debounce sentinel) at the failing input: a button stamped at clock reading 100 whose
  next \<open>cooling()\<close> call reads 100 again. The elapsed time is 0, and the call returns the
  sentinel 10 instead, because \<open>if not seconds\<close> takes \<open>0.0\<close> for \<open>None\<close>.
\<close>

theorem cooling_zero_elapsed_returns_sentinel:
  "last_time (button_obj stuck_world 0) = None
   \<and> fst (cooling 0 stuck_world) = 10
   \<and> last_time (button_obj (snd (cooling 0 stuck_world)) 0) = Some 100
   \<and> fsub (clock (snd (cooling 0 stuck_world)) (n_clock (snd (cooling 0 stuck_world)))) 100 = 0
   \<and> fst (cooling 0 (snd (cooling 0 stuck_world))) = 10"
proof -
  have fresh: "last_time (button_obj stuck_world 0) = None"
    by (simp add: stuck_world_def)
  have z: "fsub 100 100 = 0" by (simp add: fsub_def round64_def)
  let ?w1 = "stuck_world\<lparr>button_obj := (button_obj stuck_world)
      (0 := (button_obj stuck_world 0)\<lparr>last_time := Some (clock stuck_world (n_clock stuck_world))\<rparr>),
      n_clock := Suc (n_clock stuck_world)\<rparr>"
  have c1: "cooling 0 stuck_world = (10, ?w1)"
    using fresh by (rule cooling_fresh)
  have st: "last_time (button_obj ?w1 0) = Some 100"
    by (simp add: stuck_world_def stuck_clock_def)
  have c2: "fst (cooling 0 ?w1) = 10"
    using cooling_stamped [OF st] z by (simp add: stuck_world_def stuck_clock_def)
  show ?thesis
    unfolding c1 using fresh st c2 z by (simp add: stuck_world_def stuck_clock_def)
qed

text \<open>
  C7 (pattern length invariant). In a game whose pool is not empty and whose cycle time
  is not negative, \<open>generate()\<close> returns with a pattern of length 3, \<open>add()\<close> returns with the
  pattern one longer, and \<open>reset()\<close> returns with a pattern of length 3. \<open>Game(pairs)\<close> leaves
  length 3, and every state of a session has length at least 3: after \<open>start()\<close>, after
  each pass of the loop, and inside a pass before each of its \<open>watch_pair\<close> calls.

  Shrinking only by the regenerate of \<open>reset()\<close>: when a pass of the loop returns with a
  shorter pattern than it started with, one of its four \<open>watch_pair\<close> calls met a wrong
  press, called \<open>reset()\<close> there, and the pattern after the pass is the pattern that this
  call of \<open>reset()\<close> returned. A call of \<open>watch_pair\<close> that returns has either met a wrong
  press, and then its result is what \<open>reset()\<close> returned with the pair's LED switched on,
  or left the pattern as it was. The game that \<open>reset()\<close> returns is the one its call of
  \<open>generate()\<close> returned; \<open>show_pattern\<close> and \<open>cycle_lights\<close> change nothing of the game.
\<close>

theorem pattern_length_invariant:
  assumes "p_pairs (pattern (game w)) \<noteq> []" and "0 \<le> cycle (pattern (game w))"
  shows "(\<exists>w'. generate w = Inr w' \<and> length (p_pattern (pattern (game w'))) = 3)
     \<and> (\<exists>w'. add w = Inr w'
           \<and> length (p_pattern (pattern (game w'))) = length (p_pattern (pattern (game w))) + 1)
     \<and> (\<exists>w'. reset w = Inr w' \<and> length (p_pattern (pattern (game w'))) = 3)
     \<and> (\<forall>prs w0 w1. Game_init prs w0 = Inr w1 \<longrightarrow> length (p_pattern (pattern (game w1))) = 3)
     \<and> (\<forall>prs w0 n w'. session prs w0 n = Inr w' \<longrightarrow> 3 \<le> length (p_pattern (pattern (game w'))))
     \<and> (\<forall>prs w0 n w1 k u. session prs w0 n = Inr w1 \<and> before_watch k w1 = Inr u \<longrightarrow>
           3 \<le> length (p_pattern (pattern (game u))))
     \<and> (\<forall>w'. run w = Inr w' \<longrightarrow>
           length (p_pattern (pattern (game w))) \<le> length (p_pattern (pattern (game w')))
           \<or> (\<exists>k<4. \<exists>u pair v'. before_watch k w = Inr u
                \<and> getitem (pairs (game u)) (int k) = Inr pair \<and> wrong_press pair u
                \<and> reset (after_reads pair u) = Inr v'
                \<and> watch_nth (int k) u = Inr (toggle (led (pair_obj v' pair)) ''On'' v')
                \<and> pattern (game w') = pattern (game v')))
     \<and> (\<forall>pair w'. watch_pair pair w = Inr w' \<longrightarrow>
           (if wrong_press pair w
            then \<exists>v'. reset (after_reads pair w) = Inr v'
                   \<and> w' = toggle (led (pair_obj v' pair)) ''On'' v'
            else pattern (game w') = pattern (game w)))
     \<and> (\<forall>w'. reset w = Inr w' \<longrightarrow>
           (\<exists>w1. generate (w\<lparr>game := (game w)\<lparr>index := 0, speed := 1\<rparr>\<rparr>) = Inr w1
              \<and> game w' = game w1))
     \<and> (\<forall>w'. show_pattern w = Inr w' \<longrightarrow> game w' = game w)
     \<and> (\<forall>w'. cycle_lights w = Inr w' \<longrightarrow> game w' = game w)"
proof (intro conjI allI impI)
  show "\<exists>w'. generate w = Inr w' \<and> length (p_pattern (pattern (game w'))) = 3"
    using assms(1) by (simp add: generate_ok)
  show "\<exists>w'. add w = Inr w'
      \<and> length (p_pattern (pattern (game w'))) = length (p_pattern (pattern (game w))) + 1"
    using assms(1) by (simp add: add_ok)
  show "\<exists>w'. reset w = Inr w' \<and> length (p_pattern (pattern (game w'))) = 3"
    using reset_ok [OF assms] by auto
next
  fix prs w0 n w1 k u
  assume "session prs w0 n = Inr w1 \<and> before_watch k w1 = Inr u"
  then show "3 \<le> length (p_pattern (pattern (game u)))"
    using before_watch_three session_three by blast
next
  fix w'
  assume "run w = Inr w'"
  then show "length (p_pattern (pattern (game w))) \<le> length (p_pattern (pattern (game w')))
           \<or> (\<exists>k<4. \<exists>u pair v'. before_watch k w = Inr u
                \<and> getitem (pairs (game u)) (int k) = Inr pair \<and> wrong_press pair u
                \<and> reset (after_reads pair u) = Inr v'
                \<and> watch_nth (int k) u = Inr (toggle (led (pair_obj v' pair)) ''On'' v')
                \<and> pattern (game w') = pattern (game v'))"
    by (rule pass_pattern)
next
  fix pair w'
  assume "watch_pair pair w = Inr w'"
  then show "if wrong_press pair w
            then \<exists>v'. reset (after_reads pair w) = Inr v'
                   \<and> w' = toggle (led (pair_obj v' pair)) ''On'' v'
            else pattern (game w') = pattern (game w)"
    by (rule watch_pair_cases)
next
  fix w'
  assume "reset w = Inr w'"
  then show "\<exists>w1. generate (w\<lparr>game := (game w)\<lparr>index := 0, speed := 1\<rparr>\<rparr>) = Inr w1
              \<and> game w' = game w1"
    by (rule reset_regenerates)
qed (auto intro: Game_init_length session_three show_pattern_game cycle_lights_game)

theorem pattern_length_invariant_witness:
  "(\<exists>w'. generate (table all_pressed game_ybgy) = Inr w'
       \<and> length (p_pattern (pattern (game w'))) = 3)
   \<and> (\<exists>w'. add (table all_pressed game_ybgy) = Inr w'
       \<and> length (p_pattern (pattern (game w'))) = 5)
   \<and> (\<exists>w'. reset (table all_pressed game_ybgy) = Inr w'
       \<and> length (p_pattern (pattern (game w'))) = 3)
   \<and> length (p_pattern (pattern (game (table all_pressed game_ybgy)))) = 4
   \<and> (\<exists>w'. run (table all_pressed game_ybgy) = Inr w'
       \<and> length (p_pattern (pattern (game w'))) = 3
       \<and> (\<exists>k<4. \<exists>u pair v'. before_watch k (table all_pressed game_ybgy) = Inr u
            \<and> getitem (pairs (game u)) (int k) = Inr pair \<and> wrong_press pair u
            \<and> reset (after_reads pair u) = Inr v'
            \<and> watch_nth (int k) u = Inr (toggle (led (pair_obj v' pair)) ''On'' v')
            \<and> pattern (game w') = pattern (game v')))
   \<and> (\<exists>w'. session [0, 1, 2, 3] (main_store yellow_taps seconds_clock always_yellow) 150 = Inr w'
       \<and> 3 \<le> length (p_pattern (pattern (game w'))))"
proof -
  let ?w = "table all_pressed game_ybgy"
  have a: "p_pairs (pattern (game ?w)) \<noteq> []" by (simp add: game_ybgy_def game_ybg_def)
  have b: "0 \<le> cycle (pattern (game ?w))" by (simp add: game_ybgy_def game_ybg_def)
  have c: "length (p_pattern (pattern (game ?w))) = 4" by (simp add: game_ybgy_def game_ybg_def)
  note t = pattern_length_invariant [OF a b, unfolded c]
  from wrong_red_pass obtain w' where r: "run ?w = Inr w'"
    and l: "length (p_pattern (pattern (game w'))) = 3"
    by blast
  from t r have "4 \<le> length (p_pattern (pattern (game w')))
           \<or> (\<exists>k<4. \<exists>u pair v'. before_watch k ?w = Inr u
                \<and> getitem (pairs (game u)) (int k) = Inr pair \<and> wrong_press pair u
                \<and> reset (after_reads pair u) = Inr v'
                \<and> watch_nth (int k) u = Inr (toggle (led (pair_obj v' pair)) ''On'' v')
                \<and> pattern (game w') = pattern (game v'))"
    by blast
  with l have "\<exists>k<4. \<exists>u pair v'. before_watch k ?w = Inr u
                \<and> getitem (pairs (game u)) (int k) = Inr pair \<and> wrong_press pair u
                \<and> reset (after_reads pair u) = Inr v'
                \<and> watch_nth (int k) u = Inr (toggle (led (pair_obj v' pair)) ''On'' v')
                \<and> pattern (game w') = pattern (game v')"
    by simp
  with r l have "\<exists>w'. run ?w = Inr w'
       \<and> length (p_pattern (pattern (game w'))) = 3
       \<and> (\<exists>k<4. \<exists>u pair v'. before_watch k ?w = Inr u
            \<and> getitem (pairs (game u)) (int k) = Inr pair \<and> wrong_press pair u
            \<and> reset (after_reads pair u) = Inr v'
            \<and> watch_nth (int k) u = Inr (toggle (led (pair_obj v' pair)) ''On'' v')
            \<and> pattern (game w') = pattern (game v'))"
    by blast
  moreover from t have "\<exists>w'. generate ?w = Inr w' \<and> length (p_pattern (pattern (game w'))) = 3"
    "\<exists>w'. add ?w = Inr w' \<and> length (p_pattern (pattern (game w'))) = 4 + 1"
    "\<exists>w'. reset ?w = Inr w' \<and> length (p_pattern (pattern (game w'))) = 3"
    by blast+
  moreover have "\<exists>w'. session [0, 1, 2, 3] (main_store yellow_taps seconds_clock always_yellow) 150
        = Inr w' \<and> 3 \<le> length (p_pattern (pattern (game w')))"
  proof -
    from ten_rounds_play obtain w0 w1
      where "main_game yellow_taps seconds_clock always_yellow = Inr w0" and "plays w0 150 w1 10"
      by blast
    then have "session [0, 1, 2, 3] (main_store yellow_taps seconds_clock always_yellow) 150
        = Inr w1"
      unfolding session_main by (simp add: plays_def)
    with t show ?thesis by blast
  qed
  ultimately show ?thesis using c by simp
qed

text \<open>
  C4 (\<open>pattern[index]\<close> in bounds) at the failing input: the main program, the pattern
  yellow, blue, green, the player pressing yellow in the first pass of the loop, blue in
  the second, and green together with red in the third. After two passes \<open>index\<close> is 2;
  in the third, green's press makes it 3, the length of the pattern, and red's press is
  compared with \<open>pattern[3]\<close>: \<open>IndexError\<close>.
\<close>

theorem index_error_when_two_buttons_register:
  "(\<exists>w. and_then (main_game two_at_once seconds_clock ybg_choices) (ticks 2) = Inr w
       \<and> p_pattern (pattern (game w)) = [0, 1, 2] \<and> index (game w) = 2)
   \<and> and_then (main_game two_at_once seconds_clock ybg_choices) (ticks 3) = Inl IndexError"
proof -
  let ?inp = two_at_once
  obtain w0 where m: "main_game ?inp seconds_clock ybg_choices = Inr w0"
    and v0: "at_table w0 ?inp 0 game_ybg {} UNIV"
    using main_game_at_table by blast
  have g0: "game_ybg = game_ybg\<lparr>index := 0\<rparr>" by (simp add: game_ybg_def)
  \<comment> \<open>first pass: yellow is pressed\<close>
  obtain a1 where a1: "watch_nth 0 w0 = Inr a1"
    and va1: "at_table a1 ?inp 1 (game_ybg\<lparr>index := 1\<rparr>) {18} (UNIV - {0})"
    using step_match [OF v0, of 0] getitem_ybg [of 0]
    by (auto simp add: two_at_once_def led_line_def game_ybg_def)
  obtain a2 where a2: "watch_nth 1 a1 = Inr a2"
    and va2: "at_table a2 ?inp 2 (game_ybg\<lparr>index := 1\<rparr>) {18} (UNIV - {0})"
    using step_released [OF va1, of 1]
    by (auto simp add: two_at_once_def led_line_def numeral_2_eq_2 [symmetric])
  obtain a3 where a3: "watch_nth 2 a2 = Inr a3"
    and va3: "at_table a3 ?inp 3 (game_ybg\<lparr>index := 1\<rparr>) {18} (UNIV - {0})"
    using step_released [OF va2, of 2]
    by (auto simp add: two_at_once_def led_line_def numeral_2_eq_2 [symmetric])
  obtain w1 where a4: "watch_nth 3 a3 = Inr w1"
    and v1: "at_table w1 ?inp 4 (game_ybg\<lparr>index := 1\<rparr>) {18} (UNIV - {0})"
    using step_released [OF va3, of 3]
    by (auto simp add: two_at_once_def led_line_def numeral_2_eq_2 [symmetric])
  have r1: "run w0 = Inr w1"
    using v0 a1 a2 a3 a4 by (simp add: run_watch_only at_table_def game_ybg_def)
  \<comment> \<open>second pass: blue is pressed\<close>
  obtain b1 where b1: "watch_nth 0 w1 = Inr b1"
    and vb1: "at_table b1 ?inp 5 (game_ybg\<lparr>index := 1\<rparr>) {} (UNIV - {0})"
    using step_released [OF v1, of 0]
    by (auto simp add: two_at_once_def led_line_def numeral_2_eq_2 [symmetric])
  obtain b2 where b2: "watch_nth 1 b1 = Inr b2"
    and vb2: "at_table b2 ?inp 6 (game_ybg\<lparr>index := 2\<rparr>) {23} (UNIV - {0} - {1})"
    using step_match [OF vb1, of 1] getitem_ybg [of 1]
    by (auto simp add: two_at_once_def led_line_def numeral_2_eq_2 [symmetric])
  obtain b3 where b3: "watch_nth 2 b2 = Inr b3"
    and vb3: "at_table b3 ?inp 7 (game_ybg\<lparr>index := 2\<rparr>) {23} (UNIV - {0} - {1})"
    using step_released [OF vb2, of 2]
    by (auto simp add: two_at_once_def led_line_def numeral_2_eq_2 [symmetric])
  obtain w2 where b4: "watch_nth 3 b3 = Inr w2"
    and v2: "at_table w2 ?inp 8 (game_ybg\<lparr>index := 2\<rparr>) {23} (UNIV - {0} - {1})"
    using step_released [OF vb3, of 3]
    by (auto simp add: two_at_once_def led_line_def numeral_2_eq_2 [symmetric])
  have r2: "run w1 = Inr w2"
    using v1 b1 b2 b3 b4 by (simp add: run_watch_only at_table_def game_ybg_def)
  \<comment> \<open>third pass: green and red are pressed\<close>
  obtain c1 where c1: "watch_nth 0 w2 = Inr c1"
    and vc1: "at_table c1 ?inp 9 (game_ybg\<lparr>index := 2\<rparr>) {23} (UNIV - {0} - {1})"
    using step_released [OF v2, of 0]
    by (auto simp add: two_at_once_def led_line_def numeral_2_eq_2 [symmetric])
  obtain c2 where c2: "watch_nth 1 c1 = Inr c2"
    and vc2: "at_table c2 ?inp 10 (game_ybg\<lparr>index := 2\<rparr>) {} (UNIV - {0} - {1})"
    using step_released [OF vc1, of 1]
    by (auto simp add: two_at_once_def led_line_def numeral_2_eq_2 [symmetric])
  obtain c3 where c3: "watch_nth 2 c2 = Inr c3"
    and vc3: "at_table c3 ?inp 11 (game_ybg\<lparr>index := 3\<rparr>) {19} (UNIV - {0} - {1} - {2})"
    using step_match [OF vc2, of 2] getitem_ybg [of 2]
    by (auto simp add: two_at_once_def led_line_def numeral_2_eq_2 [symmetric])
  have c4: "watch_nth 3 c3 = Inl IndexError"
    using step_index_error [OF vc3, of 3] getitem_ybg [of 3]
    by (simp add: two_at_once_def led_line_def)
  have r3: "run w2 = Inl IndexError"
    using v2 c1 c2 c3 c4 by (simp add: run_watch_only at_table_def game_ybg_def)
  have t2: "ticks 2 w0 = Inr w2" using r1 r2 by (simp add: eval_nat_numeral)
  have t3: "ticks 3 w0 = Inl IndexError" using r1 r2 r3 by (simp add: eval_nat_numeral)
  have "p_pattern (pattern (game w2)) = [0, 1, 2]" "index (game w2) = 2"
    using v2 by (simp_all add: at_table_def game_ybg_def)
  then show ?thesis using m t2 t3 by simp
qed

end

